theory Spec2Isabelle
  imports Main
begin

section \<open>JavaScript values\<close>

text \<open>
  The adapter is dynamically typed: it tests its arguments for truthiness, reads
  properties off them and hands them to \<^verbatim>\<open>new Date\<close> and \<^verbatim>\<open>parseInt\<close>.  The values
  below are the fragment of JavaScript that configuration options and session
  payloads are made of.

  A finite number is kept in decimal form: \<open>Fin neg s e\<close> is the number
  \<open>(-1)^neg * s * 10^e\<close>.  This is the form in which \<^verbatim>\<open>Number::toString\<close> prints a
  number (the digits of \<open>s\<close> without its trailing zeros are the shortest digits that
  identify it), so \<^verbatim>\<open>parseInt\<close>, which reads that string, can be followed exactly.
\<close>

datatype jsnum = NaN | PosInf | NegInf | Fin bool nat int

text \<open>
  A Date object is its time value: milliseconds since the epoch, \<open>None\<close> for an
  Invalid Date.
\<close>

type_synonym jsdate = "int option"

text \<open>
  \<open>JObj ps m\<close> is an object with the own enumerable properties \<open>ps\<close>, in the order
  \<^verbatim>\<open>Object.keys\<close> lists them.  \<open>m = Some j\<close> says that the object offers a method
  \<^verbatim>\<open>toJSON\<close> (found on its prototype, as for the session middleware's Cookie), and
  that calling it on this object returns \<open>j\<close>.
\<close>

datatype jsval =
    JUndefined
  | JNull
  | JBool bool
  | JNum jsnum
  | JStr string
  | JDate jsdate
  | JObj "(string \<times> jsval) list" "jsval option"

text \<open>
  Two built-ins of the host are not computed here and are taken as parameters:
  \<^verbatim>\<open>Date.parse\<close> (\<open>None\<close> when it answers NaN) and \<^verbatim>\<open>Date.prototype.toISOString\<close>.
\<close>

record host =
  date_parse :: "string \<Rightarrow> int option"
  date_toISOString :: "int \<Rightarrow> string"

text \<open>\<^verbatim>\<open>ToBoolean\<close>: what \<^verbatim>\<open>&&\<close>, \<^verbatim>\<open>||\<close>, \<^verbatim>\<open>!\<close> and \<^verbatim>\<open>if\<close> test.\<close>

fun truthy :: "jsval \<Rightarrow> bool" where
  "truthy JUndefined = False"
| "truthy JNull = False"
| "truthy (JBool b) = b"
| "truthy (JNum NaN) = False"
| "truthy (JNum PosInf) = True"
| "truthy (JNum NegInf) = True"
| "truthy (JNum (Fin neg s e)) = (s \<noteq> 0)"
| "truthy (JStr s) = (s \<noteq> [])"
| "truthy (JDate d) = True"
| "truthy (JObj ps m) = True"

text \<open>
  Reading a property of a value that is neither \<^verbatim>\<open>undefined\<close> nor \<^verbatim>\<open>null\<close>.  The adapter
  reads only \<^verbatim>\<open>cookie\<close> and \<^verbatim>\<open>expires\<close> this way, and always behind a truthiness test
  of the base value; primitives and dates have no property of either name.
\<close>

fun get_prop :: "jsval \<Rightarrow> string \<Rightarrow> jsval" where
  "get_prop (JObj ps m) k = (case map_of ps k of Some v \<Rightarrow> v | None \<Rightarrow> JUndefined)"
| "get_prop v k = JUndefined"

subsection \<open>Numbers as strings, and parseInt\<close>

text \<open>The decimal digits of a natural number; \<open>digit_char\<close> is used on \<open>d < 10\<close> only.\<close>

definition digit_char :: "nat \<Rightarrow> char" where
  "digit_char d = ''0123456789'' ! d"

fun digits10 :: "nat \<Rightarrow> string" where
  "digits10 n = (if n < 10 then [digit_char n] else digits10 (n div 10) @ [digit_char (n mod 10)])"

declare digits10.simps [simp del]

text \<open>
  \<^verbatim>\<open>Number::toString\<close> for a positive finite number \<open>s * 10^e\<close>, \<open>s > 0\<close>.  With \<open>k\<close> the
  number of significant digits and \<open>n\<close> the position of the decimal point, the
  standard prints plain digits when \<open>k \<le> n \<le> 21\<close>, a decimal point inside the digits
  when \<open>0 < n \<le> 21\<close>, leading zeros when \<open>-6 < n \<le> 0\<close>, and exponent notation otherwise.
\<close>

definition pos_toString :: "nat \<Rightarrow> int \<Rightarrow> string" where
  "pos_toString s e =
     (let ds = digits10 s;
          tz = length (takeWhile (\<lambda>c. c = CHR ''0'') (rev ds));
          digs = take (length ds - tz) ds;
          k = int (length digs);
          n = e + int (length ds)
      in if k \<le> n \<and> n \<le> 21 then digs @ replicate (nat (n - k)) (CHR ''0'')
         else if 0 < n \<and> n \<le> 21 then take (nat n) digs @ ''.'' @ drop (nat n) digs
         else if -6 < n \<and> n \<le> 0 then ''0.'' @ replicate (nat (- n)) (CHR ''0'') @ digs
         else (if k = 1 then digs else hd digs # ''.'' @ tl digs)
              @ ''e'' @ (if n - 1 < 0 then ''-'' else ''+'') @ digits10 (nat \<bar>n - 1\<bar>))"

fun number_toString :: "jsnum \<Rightarrow> string" where
  "number_toString NaN = ''NaN''"
| "number_toString PosInf = ''Infinity''"
| "number_toString NegInf = ''-Infinity''"
| "number_toString (Fin neg s e) =
     (if s = 0 then ''0'' else (if neg then ''-'' else '''') @ pos_toString s e)"

text \<open>
  \<^verbatim>\<open>parseInt(string, 10)\<close>: leading white space is skipped, a sign is read, then the
  longest run of decimal digits; no digit at all gives NaN (\<open>None\<close>).  Strings are byte
  strings here, so of the white space characters the ASCII ones are recognised.
\<close>

definition is_space :: "char \<Rightarrow> bool" where
  "is_space c = (c \<in> set [CHR '' '', CHR 0x09, CHR 0x0A, CHR 0x0B, CHR 0x0C, CHR 0x0D])"

definition is_digit :: "char \<Rightarrow> bool" where
  "is_digit c = ((48::nat) \<le> of_char c \<and> of_char c \<le> (57::nat))"

definition digits_value :: "string \<Rightarrow> nat" where
  "digits_value cs = foldl (\<lambda>acc c. 10 * acc + (of_char c - 48)) 0 cs"

definition parseInt_string :: "string \<Rightarrow> int option" where
  "parseInt_string str =
     (let s1 = dropWhile is_space str;
          neg = (s1 \<noteq> [] \<and> hd s1 = CHR ''-'');
          s2 = (if s1 \<noteq> [] \<and> (hd s1 = CHR ''-'' \<or> hd s1 = CHR ''+'') then tl s1 else s1);
          z = takeWhile is_digit s2
      in if z = [] then None
         else Some (if neg then - int (digits_value z) else int (digits_value z)))"

text \<open>
  \<^verbatim>\<open>parseInt(v, 10)\<close> on any value: the value is first turned into a string.
  \<^verbatim>\<open>undefined\<close>, \<^verbatim>\<open>null\<close>, booleans, dates (whose string starts with the name of a week day,
  or is \<^verbatim>\<open>Invalid Date\<close>) and plain objects (\<^verbatim>\<open>[object Object]\<close>) print as strings that
  start with no digit.
\<close>

fun js_parseInt :: "jsval \<Rightarrow> int option" where
  "js_parseInt (JNum x) = parseInt_string (number_toString x)"
| "js_parseInt (JStr s) = parseInt_string s"
| "js_parseInt v = None"

subsection \<open>Dates\<close>

text \<open>
  \<^verbatim>\<open>TimeClip\<close>: a time value is an integral number of milliseconds of magnitude at most
  \<open>8.64 * 10^15\<close>; anything else is an Invalid Date.  Fractions are cut off towards zero.
\<close>

definition max_time :: int where
  "max_time = 8640000000000000"

fun time_clip :: "jsnum \<Rightarrow> jsdate" where
  "time_clip NaN = None"
| "time_clip PosInf = None"
| "time_clip NegInf = None"
| "time_clip (Fin neg s e) =
     (if (if 0 \<le> e then int s * 10 ^ nat e > max_time else int s > max_time * 10 ^ nat (- e))
      then None
      else let m = (if 0 \<le> e then int s * 10 ^ nat e else int s div 10 ^ nat (- e))
           in Some (if neg then - m else m))"

text \<open>The number with the integer value \<open>i\<close>.\<close>

definition num_of_int :: "int \<Rightarrow> jsnum" where
  "num_of_int i = Fin (i < 0) (nat \<bar>i\<bar>) 0"

text \<open>
  \<^verbatim>\<open>new Date(v)\<close>: a Date is copied, a string is parsed by the host, every other value is
  converted to a number and clipped.  A plain object converts to the string
  \<^verbatim>\<open>[object Object]\<close> first.
\<close>

fun new_Date :: "host \<Rightarrow> jsval \<Rightarrow> jsdate" where
  "new_Date h JUndefined = None"
| "new_Date h JNull = Some 0"
| "new_Date h (JBool b) = Some (if b then 1 else 0)"
| "new_Date h (JNum x) = time_clip x"
| "new_Date h (JStr s) = date_parse h s"
| "new_Date h (JDate d) = d"
| "new_Date h (JObj ps m) = date_parse h ''[object Object]''"

section \<open>The backing document collection\<close>

text \<open>
  A stored record.  \<open>doc_id\<close> is the field \<^verbatim>\<open>_id\<close>.  A field that a record does not have
  reads as \<^verbatim>\<open>undefined\<close>: \<open>JUndefined\<close> for the payload, \<open>None\<close> for the three dates.  When
  present, each of the three dates is a Date object.
\<close>

record doc =
  doc_id :: string
  session :: jsval
  expiresAt :: "jsdate option"
  createdAt :: "jsdate option"
  updatedAt :: "jsdate option"

text \<open>An error handed to a callback or emitted on the adapter's \<^verbatim>\<open>error\<close> channel:
  one that the collection reports, or the adapter's own
  \<^verbatim>\<open>'No Session exists with ID ' + JSON.stringify(sessionId)\<close>.\<close>

datatype err = StoreError string | NoSessionError string

text \<open>An exception thrown synchronously out of an adapter method.\<close>

datatype exn = TypeError

text \<open>
  Modelled from the spec: the document collection (the NeDB datastore, a dependency
  of the repository whose code is not part of it).  It holds its documents in the
  order in which \<^verbatim>\<open>find\<close> returns them.  Whether a call fails is not the adapter's
  doing, so the collection carries a plan \<open>faults\<close>: each call takes the next entry,
  and \<open>Some e\<close> makes that call report \<open>e\<close> and leave the documents as they are; with
  the plan used up, calls succeed.  Calls are served in the order they are issued.
\<close>

record datastore =
  docs :: "doc list"
  faults :: "err option list"

definition next_fault :: "datastore \<Rightarrow> err option \<times> datastore" where
  "next_fault ds =
     (case faults ds of [] \<Rightarrow> (None, ds) | f # fs \<Rightarrow> (f, ds\<lparr>faults := fs\<rparr>))"

text \<open>Modelled from the spec: \<^verbatim>\<open>findOne({ _id: sessionId }, callback(err, doc|null))\<close>.\<close>

definition ds_findOne :: "string \<Rightarrow> datastore \<Rightarrow> (err option \<times> doc option) \<times> datastore" where
  "ds_findOne sessionId ds =
     (case next_fault ds of
        (Some e, ds') \<Rightarrow> ((Some e, None), ds')
      | (None, ds') \<Rightarrow> ((None, find (\<lambda>d. doc_id d = sessionId) (docs ds')), ds'))"

text \<open>Modelled from the spec: \<^verbatim>\<open>find({}, callback(err, docs[]))\<close>.\<close>

definition ds_find :: "datastore \<Rightarrow> (err option \<times> doc list option) \<times> datastore" where
  "ds_find ds =
     (case next_fault ds of
        (Some e, ds') \<Rightarrow> ((Some e, None), ds')
      | (None, ds') \<Rightarrow> ((None, Some (docs ds')), ds'))"

text \<open>
  Modelled from the spec: \<^verbatim>\<open>remove(filter, {multi}, callback(err, numRemoved))\<close>.  The
  filter is \<^verbatim>\<open>{ _id: sessionId }\<close> (\<open>Some sessionId\<close>) or \<^verbatim>\<open>{}\<close> (\<open>None\<close>); without \<^verbatim>\<open>multi\<close> only
  the first matching document goes.
\<close>

fun remove_first :: "('a \<Rightarrow> bool) \<Rightarrow> 'a list \<Rightarrow> 'a list" where
  "remove_first P [] = []"
| "remove_first P (x # xs) = (if P x then xs else x # remove_first P xs)"

definition matches :: "string option \<Rightarrow> doc \<Rightarrow> bool" where
  "matches q d = (case q of None \<Rightarrow> True | Some sessionId \<Rightarrow> doc_id d = sessionId)"

definition ds_remove ::
  "string option \<Rightarrow> bool \<Rightarrow> datastore \<Rightarrow> (err option \<times> nat) \<times> datastore" where
  "ds_remove q multi ds =
     (case next_fault ds of
        (Some e, ds') \<Rightarrow> ((Some e, 0), ds')
      | (None, ds') \<Rightarrow>
          (let remaining = (if multi then filter (\<lambda>d. \<not> matches q d) (docs ds')
                            else remove_first (matches q) (docs ds'))
           in ((None, length (docs ds') - length remaining), ds'\<lparr>docs := remaining\<rparr>)))"

text \<open>
  Modelled from the spec: the raw unfiltered document count of the collection,
  \<^verbatim>\<open>count({}, callback(err, count))\<close>.
\<close>

definition ds_count :: "datastore \<Rightarrow> (err option \<times> nat) \<times> datastore" where
  "ds_count ds =
     (case next_fault ds of
        (Some e, ds') \<Rightarrow> ((Some e, 0), ds')
      | (None, ds') \<Rightarrow> ((None, length (docs ds')), ds'))"

text \<open>
  Modelled from the spec:
  \<^verbatim>\<open>update({ _id: sessionId }, {$set: fields}, {multi: false, upsert}, callback(err, numAffected, newDoc))\<close>.
  \<open>setop\<close> lists the fields of \<^verbatim>\<open>$set\<close>, \<open>None\<close> for a field it does not name.  The first
  document with the id gets the fields; with \<^verbatim>\<open>upsert\<close>, a missing document is created
  from the filter and the fields, and handed to the callback as \<^verbatim>\<open>newDoc\<close>.  The
  collection tracks time stamps (the adapter switches \<^verbatim>\<open>timestampData\<close> on): it sets
  \<^verbatim>\<open>updatedAt\<close> on every write itself and \<^verbatim>\<open>createdAt\<close> on creation.
\<close>

record setop =
  set_session :: "jsval option"
  set_expiresAt :: "jsdate option"
  set_updatedAt :: "jsdate option"

definition apply_set :: "int \<Rightarrow> setop \<Rightarrow> doc \<Rightarrow> doc" where
  "apply_set now u d =
     (let d1 = d\<lparr>session := (case set_session u of Some s \<Rightarrow> s | None \<Rightarrow> session d),
                 expiresAt := (case set_expiresAt u of Some x \<Rightarrow> Some x | None \<Rightarrow> expiresAt d),
                 updatedAt := (case set_updatedAt u of Some x \<Rightarrow> Some x | None \<Rightarrow> updatedAt d)\<rparr>
      in d1\<lparr>updatedAt := Some (Some now)\<rparr>)"

definition new_doc :: "int \<Rightarrow> string \<Rightarrow> setop \<Rightarrow> doc" where
  "new_doc now sessionId u =
     \<lparr>doc_id = sessionId,
      session = (case set_session u of Some s \<Rightarrow> s | None \<Rightarrow> JUndefined),
      expiresAt = set_expiresAt u,
      createdAt = Some (Some now),
      updatedAt = (case set_updatedAt u of Some x \<Rightarrow> Some x | None \<Rightarrow> Some (Some now))\<rparr>"

fun update_first :: "('a \<Rightarrow> bool) \<Rightarrow> ('a \<Rightarrow> 'a) \<Rightarrow> 'a list \<Rightarrow> 'a list" where
  "update_first P f [] = []"
| "update_first P f (x # xs) = (if P x then f x # xs else x # update_first P f xs)"

definition ds_update ::
  "int \<Rightarrow> string \<Rightarrow> setop \<Rightarrow> bool \<Rightarrow> datastore \<Rightarrow> (err option \<times> nat \<times> doc option) \<times> datastore" where
  "ds_update now sessionId u upsert ds =
     (case next_fault ds of
        (Some e, ds') \<Rightarrow> ((Some e, 0, None), ds')
      | (None, ds') \<Rightarrow>
          (if \<exists>d \<in> set (docs ds'). doc_id d = sessionId
           then ((None, 1, None),
                 ds'\<lparr>docs := update_first (\<lambda>d. doc_id d = sessionId) (apply_set now u) (docs ds')\<rparr>)
           else if upsert
           then ((None, 1, Some (new_doc now sessionId u)),
                 ds'\<lparr>docs := docs ds' @ [new_doc now sessionId u]\<rparr>)
           else ((None, 0, None), ds')))"

section \<open>The session store\<close>

text \<open>
  The store is the module with expiry handling (constructor option \<^verbatim>\<open>defaultExpiry\<close>,
  \<^verbatim>\<open>touch\<close> with a session argument), the one the README documents.

  The adapter object: \<^verbatim>\<open>this._defaultExpiry\<close> (a number: an integer, or \<open>None\<close> for NaN),
  \<^verbatim>\<open>this.datastore\<close>, the events it has emitted so far (name and argument, oldest
  first) and the interval of the periodic compaction it has scheduled on the
  datastore, if any.

  A method takes the adapter and returns what its callback receives together with
  the adapter once the collection has served the calls the method issued.  The clock
  is an argument: \<open>now\<close> is what \<^verbatim>\<open>new Date()\<close> and \<^verbatim>\<open>Date.now()\<close> read during the call, and
  the collection stamps the write that the call issues with the same reading.
\<close>

record store =
  this_defaultExpiry :: "int option"
  datastore :: datastore
  emitted :: "(string \<times> err option) list"
  autocompaction :: "int option"

definition emit :: "string \<Rightarrow> err option \<Rightarrow> store \<Rightarrow> store" where
  "emit name arg this = this\<lparr>emitted := emitted this @ [(name, arg)]\<rparr>"

subsection \<open>Construction\<close>

definition ONE_DAY :: int where
  "ONE_DAY = 86400000"

definition TWO_WEEKS :: int where
  "TWO_WEEKS = 14 * ONE_DAY"

text \<open>The options the constructor inspects; an option that is not given is \<^verbatim>\<open>undefined\<close>.\<close>

record options =
  inMemoryOnly :: jsval
  filename :: jsval
  defaultExpiry :: jsval
  autoCompactInterval :: jsval

text \<open>\<^verbatim>\<open>typeof v === 'number' && Number.isFinite(v) && v > 0\<close>\<close>

fun positive_finite_number :: "jsval \<Rightarrow> bool" where
  "positive_finite_number (JNum (Fin neg s e)) = (\<not> neg \<and> s \<noteq> 0)"
| "positive_finite_number v = False"

definition default_expiry_of :: "jsval \<Rightarrow> int option" where
  "default_expiry_of v = (if positive_finite_number v then js_parseInt v else Some TWO_WEEKS)"

text \<open>
  \<^verbatim>\<open>aci < 5000 ? 5000 : ( aci < ONE_DAY ? aci : ONE_DAY )\<close> on the result of \<^verbatim>\<open>parseInt\<close>;
  every comparison with NaN is false.
\<close>

definition clamp_aci :: "int option \<Rightarrow> int" where
  "clamp_aci aci =
     (case aci of
        None \<Rightarrow> ONE_DAY
      | Some a \<Rightarrow> if a < 5000 then 5000 else if a < ONE_DAY then a else ONE_DAY)"

definition aci_of :: "jsval \<Rightarrow> int option" where
  "aci_of v = (if v \<noteq> JNull then Some (clamp_aci (js_parseInt v)) else None)"

text \<open>
  The constructor, up to the creation of the datastore \<open>ds\<close>, which NeDB builds (and
  loads) from the normalised options.
\<close>

definition NeDBStore :: "options \<Rightarrow> datastore \<Rightarrow> store" where
  "NeDBStore opts ds =
     (let inMem = truthy (inMemoryOnly opts);
          filename' = (if \<not> inMem
                       then (if truthy (filename opts) then filename opts else JStr ''data/sessions.db'')
                       else JNull);
          autoCompactInterval' = (if \<not> inMem then autoCompactInterval opts else JNull);
          aci = aci_of autoCompactInterval'
      in \<lparr>this_defaultExpiry = default_expiry_of (defaultExpiry opts),
          datastore = ds,
          emitted = [],
          autocompaction = (if truthy filename' \<and> aci \<noteq> None then aci else None)\<rparr>)"

text \<open>The \<^verbatim>\<open>onload\<close> handler the constructor installs, run by the datastore once loaded.\<close>

definition onload :: "err option \<Rightarrow> store \<Rightarrow> store" where
  "onload e this =
     (let this1 = (if e \<noteq> None then emit ''error'' e this else this)
      in emit (if e \<noteq> None then ''disconnect'' else ''connect'') None this1)"

subsection \<open>destroy and clear\<close>

text \<open>Both hand only the error of the removal to the callback, not the count.\<close>

definition destroy :: "store \<Rightarrow> string \<Rightarrow> err option \<times> store" where
  "destroy this sessionId =
     (case ds_remove (Some sessionId) False (datastore this) of
        ((e, numRemoved), ds') \<Rightarrow> (e, this\<lparr>datastore := ds'\<rparr>))"

definition clear :: "store \<Rightarrow> err option \<times> store" where
  "clear this =
     (case ds_remove None True (datastore this) of
        ((e, numRemoved), ds') \<Rightarrow> (e, this\<lparr>datastore := ds'\<rparr>))"

subsection \<open>set\<close>

text \<open>
  The test \<^verbatim>\<open>session && session.cookie && session.cookie.expires\<close> of \<^verbatim>\<open>set\<close> and \<^verbatim>\<open>touch\<close>,
  and the value of \<^verbatim>\<open>session.cookie.expires\<close> that is read when it holds.
\<close>

definition cookie_expires :: "jsval \<Rightarrow> jsval" where
  "cookie_expires session' = get_prop (get_prop session' ''cookie'') ''expires''"

definition has_cookie_expires :: "jsval \<Rightarrow> bool" where
  "has_cookie_expires session' =
     (truthy session' \<and> truthy (get_prop session' ''cookie'') \<and> truthy (cookie_expires session'))"

text \<open>\<^verbatim>\<open>expirationDate\<close> as \<^verbatim>\<open>set\<close> computes it; \<open>now\<close> is the reading of \<^verbatim>\<open>Date.now()\<close>.\<close>

definition expirationDate :: "host \<Rightarrow> int \<Rightarrow> store \<Rightarrow> jsval \<Rightarrow> jsdate" where
  "expirationDate h now this session' =
     (if has_cookie_expires session' then new_Date h (cookie_expires session')
      else (case this_defaultExpiry this of
              None \<Rightarrow> None
            | Some de \<Rightarrow> time_clip (num_of_int (now + de))))"

text \<open>
  \<^verbatim>\<open>typeof v.toJSON === 'function'\<close> and, if so, the result of \<^verbatim>\<open>v.toJSON()\<close>, for a value \<open>v\<close>
  other than \<^verbatim>\<open>undefined\<close> and \<^verbatim>\<open>null\<close>.  Besides the objects that bring their own method,
  dates have one: it answers the ISO string, or \<^verbatim>\<open>null\<close> for an Invalid Date.
\<close>

fun toJSON :: "host \<Rightarrow> jsval \<Rightarrow> jsval option" where
  "toJSON h (JObj ps m) = m"
| "toJSON h (JDate None) = Some JNull"
| "toJSON h (JDate (Some t)) = Some (JStr (date_toISOString h t))"
| "toJSON h v = None"

text \<open>
  The loop over \<^verbatim>\<open>Object.keys( session )\<close> that fills \<^verbatim>\<open>sess\<close>.  Reading \<^verbatim>\<open>.toJSON\<close> off a
  \<^verbatim>\<open>cookie\<close> property that is \<^verbatim>\<open>undefined\<close> or \<^verbatim>\<open>null\<close> throws.
\<close>

fun copy_props :: "host \<Rightarrow> (string \<times> jsval) list \<Rightarrow> exn + (string \<times> jsval) list" where
  "copy_props h [] = Inr []"
| "copy_props h ((key, v) # ps) =
     (if key = ''cookie'' \<and> (v = JUndefined \<or> v = JNull) then Inl TypeError
      else (case copy_props h ps of
              Inl x \<Rightarrow> Inl x
            | Inr sess \<Rightarrow>
                Inr ((key, case (if key = ''cookie'' then toJSON h v else None) of
                             Some j \<Rightarrow> j
                           | None \<Rightarrow> v) # sess)))"

text \<open>
  \<^verbatim>\<open>Object.keys\<close> throws on \<^verbatim>\<open>undefined\<close> and \<^verbatim>\<open>null\<close>; a string has its indices as keys, each
  holding one character; the other primitives and dates have no own enumerable
  property.
\<close>

fun string_props :: "nat \<Rightarrow> string \<Rightarrow> (string \<times> jsval) list" where
  "string_props i [] = []"
| "string_props i (c # cs) = (digits10 i, JStr [c]) # string_props (Suc i) cs"

fun own_props :: "jsval \<Rightarrow> exn + (string \<times> jsval) list" where
  "own_props JUndefined = Inl TypeError"
| "own_props JNull = Inl TypeError"
| "own_props (JObj ps m) = Inr ps"
| "own_props (JStr s) = Inr (string_props 0 s)"
| "own_props v = Inr []"

definition serialize_session :: "host \<Rightarrow> jsval \<Rightarrow> exn + jsval" where
  "serialize_session h session' =
     (case own_props session' of
        Inl x \<Rightarrow> Inl x
      | Inr ps \<Rightarrow> (case copy_props h ps of Inl x \<Rightarrow> Inl x | Inr sess \<Rightarrow> Inr (JObj sess None)))"

text \<open>
  \<^verbatim>\<open>set\<close>: the callback's argument and the adapter afterwards, or the exception thrown
  before the datastore is reached.
\<close>

definition set_op :: "host \<Rightarrow> int \<Rightarrow> store \<Rightarrow> string \<Rightarrow> jsval \<Rightarrow> exn + (err option \<times> store)" where
  "set_op h now this sessionId session' =
     (let expirationDate' = expirationDate h now this session'
      in case serialize_session h session' of
           Inl x \<Rightarrow> Inl x
         | Inr sess \<Rightarrow>
             (case ds_update now sessionId
                     \<lparr>set_session = Some sess, set_expiresAt = Some expirationDate',
                      set_updatedAt = None\<rparr>
                     True (datastore this) of
                ((e, numAffected, newDoc), ds') \<Rightarrow>
                  Inr (if e = None \<and> numAffected = 0 \<and> newDoc = None
                       then Some (NoSessionError sessionId) else e,
                       this\<lparr>datastore := ds'\<rparr>)))"

subsection \<open>touch\<close>

definition touch :: "host \<Rightarrow> int \<Rightarrow> store \<Rightarrow> string \<Rightarrow> jsval \<Rightarrow> err option \<times> store" where
  "touch h now this sessionId session' =
     (let touchSetOp =
            \<lparr>set_session = None,
             set_expiresAt = (if has_cookie_expires session'
                              then Some (new_Date h (cookie_expires session')) else None),
             set_updatedAt = Some (Some now)\<rparr>
      in case ds_update now sessionId touchSetOp False (datastore this) of
           ((e, numAffected, newDoc), ds') \<Rightarrow>
             (if e = None \<and> numAffected = 0 then Some (NoSessionError sessionId) else e,
              this\<lparr>datastore := ds'\<rparr>))"

subsection \<open>get, all and length\<close>

text \<open>
  The test both read paths apply to a record:
  \<^verbatim>\<open>existingDoc.session && !existingDoc.expiresAt || new Date() < existingDoc.expiresAt\<close>.
  \<^verbatim>\<open>&&\<close> binds tighter than \<^verbatim>\<open>||\<close>; a Date object is truthy even when invalid, and a
  comparison with an Invalid Date or with \<^verbatim>\<open>undefined\<close> is false.
\<close>

definition not_expired :: "int \<Rightarrow> doc \<Rightarrow> bool" where
  "not_expired now existingDoc =
     ((truthy (session existingDoc) \<and> expiresAt existingDoc = None)
      \<or> (case expiresAt existingDoc of Some (Some t) \<Rightarrow> now < t | _ \<Rightarrow> False))"

text \<open>\<^verbatim>\<open>get\<close>: the two arguments of the callback (\<open>JNull\<close> is \<^verbatim>\<open>null\<close>) and the adapter afterwards;
  \<open>now\<close> is the reading of \<^verbatim>\<open>new Date()\<close>.\<close>

definition get :: "int \<Rightarrow> store \<Rightarrow> string \<Rightarrow> (err option \<times> jsval) \<times> store" where
  "get now this sessionId =
     (case ds_findOne sessionId (datastore this) of
        ((e, existingDoc), ds') \<Rightarrow>
          (let this' = this\<lparr>datastore := ds'\<rparr>
           in if e \<noteq> None then ((e, JNull), this')
              else (case existingDoc of
                      Some d \<Rightarrow>
                        if not_expired now d then ((None, session d), this')
                        else (case destroy this' sessionId of
                                (destroyErr, this'') \<Rightarrow> ((destroyErr, JNull), this''))
                    | None \<Rightarrow> ((None, JNull), this'))))"

text \<open>
  The filtering callback of \<^verbatim>\<open>all\<close>, applied to the documents from position \<open>i\<close> on:
  the documents kept, and the ids for which a destroy was issued, in that order.
  \<open>clock i\<close> is the reading of \<^verbatim>\<open>new Date()\<close> while the callback looks at document \<open>i\<close>.
\<close>

fun all_filter :: "(nat \<Rightarrow> int) \<Rightarrow> nat \<Rightarrow> doc list \<Rightarrow> doc list \<times> string list" where
  "all_filter clock i [] = ([], [])"
| "all_filter clock i (existingDoc # rest) =
     (case all_filter clock (Suc i) rest of
        (kept, stale) \<Rightarrow>
          if not_expired (clock i) existingDoc then (existingDoc # kept, stale)
          else (kept, doc_id existingDoc # stale))"

text \<open>
  The destroys issued by the filter are served by the datastore one after the other;
  the callback of each emits the error, if there is one.
\<close>

fun destroy_stale :: "store \<Rightarrow> string list \<Rightarrow> store" where
  "destroy_stale this [] = this"
| "destroy_stale this (sessionId # rest) =
     (case destroy this sessionId of
        (destroyErr, this') \<Rightarrow>
          destroy_stale (if destroyErr \<noteq> None then emit ''error'' destroyErr this' else this') rest)"

text \<open>\<^verbatim>\<open>all\<close>: the callback's arguments (\<open>None\<close> for a \<^verbatim>\<open>null\<close> list) and the adapter
  once the destroys it issued are done.\<close>

definition all :: "(nat \<Rightarrow> int) \<Rightarrow> store \<Rightarrow> (err option \<times> jsval list option) \<times> store" where
  "all clock this =
     (case ds_find (datastore this) of
        ((e, existingDocs), ds') \<Rightarrow>
          (let this' = this\<lparr>datastore := ds'\<rparr>
           in if e \<noteq> None then ((e, None), this')
              else (case all_filter clock 0 (case existingDocs of Some ds \<Rightarrow> ds | None \<Rightarrow> []) of
                      (kept, stale) \<Rightarrow>
                        ((None, Some (map session kept)), destroy_stale this' stale))))"

text \<open>\<^verbatim>\<open>length\<close>: \<^verbatim>\<open>callback( err, ( sessions || [] ).length )\<close> from within \<^verbatim>\<open>all\<close>.\<close>

definition length_op :: "(nat \<Rightarrow> int) \<Rightarrow> store \<Rightarrow> (err option \<times> nat) \<times> store" where
  "length_op clock this =
     (case all clock this of
        ((e, sessions), this') \<Rightarrow>
          ((e, length (case sessions of Some l \<Rightarrow> l | None \<Rightarrow> [])), this'))"

text \<open>
  \<^verbatim>\<open>length\<close> as the file \<^verbatim>\<open>index.js\<close> has it (lines 207-215), the revision of the module
  without expiry: \<^verbatim>\<open>this.datastore.count( {}, function( err, count ) { return callback( err, count ); } )\<close>.
\<close>

definition length_count :: "store \<Rightarrow> (err option \<times> nat) \<times> store" where
  "length_count this =
     (case ds_count (datastore this) of
        ((e, count), ds') \<Rightarrow> ((e, count), this\<lparr>datastore := ds'\<rparr>))"

section \<open>Vocabulary of the statements\<close>

text \<open>
  \<open>reports n ds\<close> is what the collection will report for the call it serves \<open>n\<close> calls
  from now: \<open>None\<close> when that call succeeds.
\<close>

definition reports :: "nat \<Rightarrow> datastore \<Rightarrow> err option" where
  "reports n ds = (if n < length (faults ds) then faults ds ! n else None)"

text \<open>The \<^verbatim>\<open>error\<close> events that a run of reports gives rise to, one for each failure.\<close>

definition error_events :: "err option list \<Rightarrow> (string \<times> err option) list" where
  "error_events rs = concat (map (\<lambda>r. case r of None \<Rightarrow> [] | Some e \<Rightarrow> [(''error'', Some e)]) rs)"

text \<open>The record of a session, as \<^verbatim>\<open>findOne\<close> finds it.\<close>

definition record_of :: "string \<Rightarrow> store \<Rightarrow> doc option" where
  "record_of sessionId this = find (\<lambda>d. doc_id d = sessionId) (docs (datastore this))"

text \<open>
  The data model of the records: every record carries a session payload, a mapping,
  which is a truthy value.
\<close>

definition payloads_present :: "store \<Rightarrow> bool" where
  "payloads_present this = list_all (\<lambda>d. truthy (session d)) (docs (datastore this))"

text \<open>The collection's invariant that \<^verbatim>\<open>_id\<close> is a key.\<close>

definition unique_ids :: "store \<Rightarrow> bool" where
  "unique_ids this = distinct (map doc_id (docs (datastore this)))"

section \<open>Sample inputs\<close>

text \<open>Concrete hosts, options, payloads and stores on which the theorems below are run.\<close>

definition sample_host :: host where
  "sample_host = \<lparr>date_parse = (\<lambda>s. None), date_toISOString = (\<lambda>t. ''1970-01-01T00:00:05.000Z'')\<rparr>"

definition no_options :: options where
  "no_options = \<lparr>inMemoryOnly = JUndefined, filename = JUndefined, defaultExpiry = JUndefined,
                  autoCompactInterval = JUndefined\<rparr>"

definition empty_datastore :: datastore where
  "empty_datastore = \<lparr>docs = [], faults = []\<rparr>"

definition fresh_store :: store where
  "fresh_store = NeDBStore no_options empty_datastore"

text \<open>A payload whose cookie expires at time 5000 and offers no \<^verbatim>\<open>toJSON\<close>.\<close>

definition sample_session :: jsval where
  "sample_session =
     JObj [(''user'', JStr ''ann''), (''cookie'', JObj [(''expires'', JDate (Some 5000))] None)] None"

text \<open>A payload whose cookie carries an Invalid Date as \<^verbatim>\<open>expires\<close>.\<close>

definition invalid_expiry_session :: jsval where
  "invalid_expiry_session = JObj [(''cookie'', JObj [(''expires'', JDate None)] None)] None"

text \<open>A payload whose cookie offers \<^verbatim>\<open>toJSON\<close>, which leaves out the cookie's private field.\<close>

definition json_cookie_session :: jsval where
  "json_cookie_session =
     JObj [(''user'', JStr ''ann''),
           (''cookie'', JObj [(''_expires'', JDate (Some 5000)), (''expires'', JDate (Some 5000))]
                          (Some (JObj [(''expires'', JDate (Some 5000))] None)))] None"

text \<open>A payload whose cookie expired at time 500.\<close>

definition past_session :: jsval where
  "past_session =
     JObj [(''user'', JStr ''ann''), (''cookie'', JObj [(''expires'', JDate (Some 500))] None)] None"

text \<open>The fresh store after \<^verbatim>\<open>set\<close> has written \<open>sample_session\<close> under the id \<^verbatim>\<open>s1\<close> at time 1000.\<close>

definition written_store :: store where
  "written_store =
     fresh_store\<lparr>datastore :=
       \<lparr>docs = [\<lparr>doc_id = ''s1'', session = sample_session, expiresAt = Some (Some 5000),
                 createdAt = Some (Some 1000), updatedAt = Some (Some 1000)\<rparr>],
        faults = []\<rparr>\<rparr>"

text \<open>The fresh store after \<^verbatim>\<open>set\<close> has written \<open>past_session\<close> under the id \<^verbatim>\<open>s1\<close> at time 1000.\<close>

definition past_written_store :: store where
  "past_written_store =
     fresh_store\<lparr>datastore :=
       \<lparr>docs = [\<lparr>doc_id = ''s1'', session = past_session, expiresAt = Some (Some 500),
                 createdAt = Some (Some 1000), updatedAt = Some (Some 1000)\<rparr>],
        faults = []\<rparr>\<rparr>"

text \<open>Three records: one that expires at 100, one that expires at 50, and one of an
  earlier version of the store, which has no \<^verbatim>\<open>expiresAt\<close>.\<close>

definition doc_live :: doc where
  "doc_live = \<lparr>doc_id = ''live'', session = JObj [(''user'', JStr ''ann'')] None,
                expiresAt = Some (Some 100), createdAt = Some (Some 1), updatedAt = Some (Some 1)\<rparr>"

definition doc_stale :: doc where
  "doc_stale = \<lparr>doc_id = ''stale'', session = JObj [(''user'', JStr ''bob'')] None,
                 expiresAt = Some (Some 50), createdAt = Some (Some 2), updatedAt = Some (Some 2)\<rparr>"

definition doc_legacy :: doc where
  "doc_legacy = \<lparr>doc_id = ''legacy'', session = JObj [(''user'', JStr ''eve'')] None,
                  expiresAt = None, createdAt = Some (Some 3), updatedAt = Some (Some 3)\<rparr>"

definition sample_store :: store where
  "sample_store =
     \<lparr>this_defaultExpiry = Some 1209600000,
      datastore = \<lparr>docs = [doc_live, doc_stale, doc_legacy], faults = []\<rparr>,
      emitted = [], autocompaction = None\<rparr>"

text \<open>The same store on a collection that serves the next call and fails the one after.\<close>

definition flaky_store :: store where
  "flaky_store =
     sample_store\<lparr>datastore :=
       \<lparr>docs = [doc_live, doc_stale, doc_legacy], faults = [None, Some (StoreError ''EIO'')]\<rparr>\<rparr>"

section \<open>Facts about lists, numbers and the collection\<close>

lemma replicate_numeral: "replicate (numeral k) x = x # replicate (pred_numeral k) x"
  by (simp add: numeral_eq_Suc)

lemmas number_defs =
  pos_toString_def digits10.simps num_of_int_def digit_char_def parseInt_string_def is_space_def
  is_digit_def digits_value_def max_time_def replicate_numeral

lemmas construction_defs =
  NeDBStore_def default_expiry_of_def aci_of_def clamp_aci_def ONE_DAY_def TWO_WEEKS_def

lemmas collection_defs =
  next_fault_def ds_findOne_def ds_find_def ds_remove_def ds_update_def matches_def apply_set_def
  new_doc_def reports_def record_of_def unique_ids_def

subsection \<open>Lists\<close>

lemma find_None_iff_absent: "find P xs = None \<longleftrightarrow> (\<forall>x \<in> set xs. \<not> P x)"
  by (induction xs) auto

lemma find_Some_holds: "find P xs = Some d \<Longrightarrow> P d \<and> d \<in> set xs"
  by (induction xs) (auto split: if_splits)

lemma update_first_absent: "\<forall>x \<in> set xs. \<not> P x \<Longrightarrow> update_first P f xs = xs"
  by (induction xs) auto

lemma update_first_index:
  "find P xs = Some d \<Longrightarrow>
     \<exists>i < length xs. xs ! i = d \<and> (\<forall>j < i. \<not> P (xs ! j)) \<and> update_first P f xs = xs[i := f d]"
proof (induction xs)
  case Nil
  then show ?case by simp
next
  case (Cons x xs)
  show ?case
  proof (cases "P x")
    case True
    with Cons.prems have "x = d" by simp
    with True show ?thesis by (intro exI[of _ 0]) simp
  next
    case False
    with Cons.prems have "find P xs = Some d" by simp
    from Cons.IH[OF this] obtain i where i: "i < length xs" "xs ! i = d"
      "\<forall>j < i. \<not> P (xs ! j)" "update_first P f xs = xs[i := f d]" by blast
    have "\<forall>j < Suc i. \<not> P ((x # xs) ! j)"
      using False i(3) by (auto simp: nth_Cons split: nat.splits)
    with i False show ?thesis by (intro exI[of _ "Suc i"]) simp
  qed
qed

lemma map_update_first:
  "(\<And>x. g (f x) = g x) \<Longrightarrow> map g (update_first P f xs) = map g xs"
  by (induction xs) auto

lemma find_update_first:
  "(\<And>x. P (f x) = P x) \<Longrightarrow> find P (update_first P f xs) = map_option f (find P xs)"
  by (induction xs) auto

lemma length_remove_first: "length xs \<le> Suc (length (remove_first P xs))"
  by (induction xs) auto

lemma remove_first_distinct:
  "distinct (map g xs) \<Longrightarrow> remove_first (\<lambda>x. g x = k) xs = filter (\<lambda>x. g x \<noteq> k) xs"
proof (induction xs)
  case Nil
  then show ?case by simp
next
  case (Cons x xs)
  have "filter (\<lambda>y. g y \<noteq> k) xs = xs" if "g x = k"
  proof -
    from Cons.prems have "g x \<notin> g ` set xs" by simp
    with that have "\<forall>y \<in> set xs. g y \<noteq> k" by blast
    then show ?thesis by simp
  qed
  with Cons show ?case by simp
qed

lemma find_append_absent: "find P xs = None \<Longrightarrow> find P (xs @ ys) = find P ys"
  by (induction xs) (auto split: if_splits)

subsection \<open>Decimal digits\<close>

lemma of_char_digit_char: "d < 10 \<Longrightarrow> of_char (digit_char d) = 48 + d"
proof -
  assume "d < 10"
  then have "d = 0 \<or> d = 1 \<or> d = 2 \<or> d = 3 \<or> d = 4 \<or> d = 5 \<or> d = 6 \<or> d = 7
    \<or> d = 8 \<or> d = 9" by arith
  then show ?thesis by (elim disjE) (simp_all add: digit_char_def)
qed

lemma is_digit_digit_char: "d < 10 \<Longrightarrow> is_digit (digit_char d)"
  by (simp add: is_digit_def of_char_digit_char)

lemma not_space_digit: "is_digit c \<Longrightarrow> \<not> is_space c"
  by (auto simp: is_digit_def is_space_def)

lemma not_sign_digit: "is_digit c \<Longrightarrow> c \<noteq> CHR ''-'' \<and> c \<noteq> CHR ''+''"
  by (auto simp: is_digit_def)

lemma digits10_digits: "\<forall>c \<in> set (digits10 n). is_digit c"
proof (induction n rule: digits10.induct)
  case (1 n)
  show ?case
  proof (cases "n < 10")
    case True
    then show ?thesis by (subst digits10.simps) (simp add: is_digit_digit_char)
  next
    case False
    with 1 show ?thesis
      by (subst digits10.simps) (simp add: is_digit_digit_char)
  qed
qed

lemma digits10_nonempty: "digits10 n \<noteq> []"
  by (subst digits10.simps) simp

lemma digits_value_snoc: "digits_value (cs @ [c]) = 10 * digits_value cs + (of_char c - 48)"
  by (simp add: digits_value_def)

lemma digits_value_digits10: "digits_value (digits10 n) = n"
proof (induction n rule: digits10.induct)
  case (1 n)
  show ?case
  proof (cases "n < 10")
    case True
    then show ?thesis
      by (subst digits10.simps) (simp add: digits_value_def of_char_digit_char)
  next
    case False
    with 1 have "digits_value (digits10 (n div 10)) = n div 10" by simp
    with False show ?thesis
      by (subst digits10.simps) (simp add: digits_value_snoc of_char_digit_char)
  qed
qed

lemma length_digits10: "n < 10 ^ m \<Longrightarrow> 0 < m \<Longrightarrow> length (digits10 n) \<le> m"
proof (induction n arbitrary: m rule: digits10.induct)
  case (1 n)
  show ?case
  proof (cases "n < 10")
    case True
    with 1 show ?thesis by (subst digits10.simps) simp
  next
    case False
    from False "1.prems" have m: "1 < m"
      by (cases "m = 1") auto
    then obtain m' where m': "m = Suc m'" "0 < m'" by (cases m) auto
    with "1.prems" have "n div 10 < 10 ^ m'"
      by (simp add: less_mult_imp_div_less mult.commute)
    from "1.IH"[OF False this m'(2)] False m' show ?thesis
      by (subst digits10.simps) simp
  qed
qed

lemma strip_trailing:
  "take (length xs - length (takeWhile P (rev xs))) xs
     @ replicate (length (takeWhile P (rev xs))) c = xs"
  if "\<And>x. P x \<Longrightarrow> x = c"
proof -
  have r: "rev xs = takeWhile P (rev xs) @ dropWhile P (rev xs)" by simp
  have t: "takeWhile P (rev xs) = replicate (length (takeWhile P (rev xs))) c"
    using that by (intro replicate_eqI) (auto dest: set_takeWhileD)
  have "xs = rev (dropWhile P (rev xs)) @ rev (takeWhile P (rev xs))"
    by (metis r rev_append rev_rev_ident)
  moreover have "length (rev (dropWhile P (rev xs))) = length xs - length (takeWhile P (rev xs))"
    by (metis r length_append length_rev add_diff_cancel_left')
  ultimately have "take (length xs - length (takeWhile P (rev xs))) xs = rev (dropWhile P (rev xs))"
    by (metis append_eq_conv_conj)
  moreover have "rev (takeWhile P (rev xs)) = replicate (length (takeWhile P (rev xs))) c"
    using t by (metis rev_replicate)
  ultimately show ?thesis
    using \<open>xs = rev (dropWhile P (rev xs)) @ rev (takeWhile P (rev xs))\<close> by simp
qed

lemma pos_toString_integer:
  assumes "s < 10 ^ 21"
  shows "pos_toString s 0 = digits10 s"
proof -
  let ?ds = "digits10 s"
  let ?tz = "length (takeWhile (\<lambda>c. c = CHR ''0'') (rev ?ds))"
  have len: "length ?ds \<le> 21" using assms by (intro length_digits10) simp_all
  have tz: "?tz \<le> length ?ds"
    by (metis length_rev length_takeWhile_le)
  have "take (length ?ds - ?tz) ?ds @ replicate ?tz (CHR ''0'') = ?ds"
    by (rule strip_trailing) simp
  with len tz show ?thesis
    by (simp add: pos_toString_def Let_def)
qed

lemma parseInt_digits: "parseInt_string (digits10 s) = Some (int s)"
proof -
  have d: "\<forall>c \<in> set (digits10 s). is_digit c" by (rule digits10_digits)
  have ne: "digits10 s \<noteq> []" by (rule digits10_nonempty)
  then have h: "is_digit (hd (digits10 s))" using d by simp
  have dw: "dropWhile is_space (digits10 s) = digits10 s"
    using ne h not_space_digit by (cases "digits10 s") auto
  have tw: "takeWhile is_digit (digits10 s) = digits10 s"
    using d by simp
  show ?thesis
    using ne not_sign_digit[OF h]
    by (simp add: parseInt_string_def Let_def digits_value_digits10 dw tw)
qed

lemma parseInt_minus_digits: "parseInt_string (CHR ''-'' # digits10 s) = Some (- int s)"
proof -
  have d: "\<forall>c \<in> set (digits10 s). is_digit c" by (rule digits10_digits)
  have ne: "digits10 s \<noteq> []" by (rule digits10_nonempty)
  have sp: "\<not> is_space (CHR ''-'')" by (simp add: is_space_def)
  have tw: "takeWhile is_digit (digits10 s) = digits10 s"
    using d by simp
  show ?thesis
    using ne by (simp add: parseInt_string_def Let_def digits_value_digits10 sp tw)
qed

lemma js_parseInt_integer:
  assumes "\<bar>i\<bar> < 10 ^ 21"
  shows "js_parseInt (JNum (num_of_int i)) = Some i"
proof -
  have s: "nat \<bar>i\<bar> < 10 ^ 21" using assms by (simp add: nat_less_iff)
  show ?thesis
  proof (cases "i = 0")
    case True
    then show ?thesis
      by (simp add: num_of_int_def parseInt_string_def is_space_def is_digit_def digits_value_def)
  next
    case False
    show ?thesis
    proof (cases "i < 0")
      case True
      then have "nat \<bar>i\<bar> \<noteq> 0" "- int (nat \<bar>i\<bar>) = i" by simp_all
      with True show ?thesis
        using pos_toString_integer[OF s] parseInt_minus_digits[of "nat \<bar>i\<bar>"]
        by (simp add: num_of_int_def)
    next
      case nonneg: False
      with False have "nat \<bar>i\<bar> \<noteq> 0" "int (nat \<bar>i\<bar>) = i" by simp_all
      with nonneg show ?thesis
        using pos_toString_integer[OF s] parseInt_digits[of "nat \<bar>i\<bar>"]
        by (simp add: num_of_int_def)
    qed
  qed
qed

text \<open>
  Outside the integers below \<open>10^21\<close>, \<^verbatim>\<open>parseInt\<close> of a number is not the number: a fraction is
  cut off, and of a number printed in exponent notation only the leading digit is read.
\<close>

lemma js_parseInt_number_examples:
  "js_parseInt (JNum (Fin False 15005 (-1))) = Some 1500
   \<and> js_parseInt (JNum (Fin False 5 (-1))) = Some 0
   \<and> js_parseInt (JNum (Fin False 1 (-7))) = Some 1
   \<and> js_parseInt (JNum (num_of_int 1000000000000000000000)) = Some 1"
  by (simp add: number_defs)

lemma time_clip_int:
  "time_clip (num_of_int i) = (if \<bar>i\<bar> \<le> max_time then Some i else None)"
  by (auto simp: num_of_int_def Let_def)

lemma clamp_aci_range: "5000 \<le> clamp_aci a \<and> clamp_aci a \<le> 86400000"
  by (cases a) (simp_all add: clamp_aci_def ONE_DAY_def)

lemma default_expiry_fallback:
  "\<not> positive_finite_number v \<Longrightarrow> default_expiry_of v = Some 1209600000"
  by (simp add: default_expiry_of_def TWO_WEEKS_def ONE_DAY_def)

lemma default_expiry_integer:
  "0 < i \<Longrightarrow> i < 10 ^ 21 \<Longrightarrow> default_expiry_of (JNum (num_of_int i)) = Some i"
  using js_parseInt_integer[of i]
  by (simp add: default_expiry_of_def del: js_parseInt.simps) (simp add: num_of_int_def)

subsection \<open>The collection and the fault plan\<close>

lemma next_fault_eq: "next_fault ds = (reports 0 ds, ds\<lparr>faults := tl (faults ds)\<rparr>)"
  by (cases "faults ds") (simp_all add: next_fault_def reports_def)

lemma reports_tl: "reports n (ds\<lparr>faults := tl (faults ds)\<rparr>) = reports (Suc n) ds"
  by (cases "faults ds") (simp_all add: reports_def)

lemma reports_Nil: "faults ds = [] \<Longrightarrow> reports n ds = None"
  by (simp add: reports_def)

lemma matches_Some: "matches (Some s) = (\<lambda>d. doc_id d = s)"
  by (simp add: fun_eq_iff matches_def)

lemma destroy_eq:
  "destroy this sessionId =
     (reports 0 (datastore this),
      this\<lparr>datastore :=
        \<lparr>docs = (if reports 0 (datastore this) = None
                  then remove_first (\<lambda>d. doc_id d = sessionId) (docs (datastore this))
                  else docs (datastore this)),
         faults = tl (faults (datastore this))\<rparr>\<rparr>)"
  by (cases "reports 0 (datastore this)")
     (simp_all add: destroy_def ds_remove_def next_fault_eq matches_Some Let_def)

lemma ds_update_absent:
  assumes "\<forall>d \<in> set (docs ds). doc_id d \<noteq> sessionId"
  shows "ds_update now sessionId u False ds =
           ((reports 0 ds, 0, None), ds\<lparr>faults := tl (faults ds)\<rparr>)"
  using assms by (cases "reports 0 ds") (auto simp: ds_update_def next_fault_eq)

lemma ds_update_present:
  assumes "find (\<lambda>d. doc_id d = sessionId) (docs ds) = Some d" and "reports 0 ds = None"
  shows "ds_update now sessionId u upsert ds =
           ((None, 1, None),
            \<lparr>docs = update_first (\<lambda>d. doc_id d = sessionId) (apply_set now u) (docs ds),
             faults = tl (faults ds)\<rparr>)"
  using assms find_Some_holds[OF assms(1)] by (auto simp: ds_update_def next_fault_eq)

lemma ds_update_upsert:
  assumes "\<forall>d \<in> set (docs ds). doc_id d \<noteq> sessionId" and "reports 0 ds = None"
  shows "ds_update now sessionId u True ds =
           ((None, 1, Some (new_doc now sessionId u)),
            \<lparr>docs = docs ds @ [new_doc now sessionId u], faults = tl (faults ds)\<rparr>)"
  using assms by (auto simp: ds_update_def next_fault_eq)

lemma set_op_stores:
  assumes "set_op h now this sessionId session' = Inr (None, this')"
  shows "\<exists>sess d. serialize_session h session' = Inr sess
           \<and> record_of sessionId this' = Some d
           \<and> session d = sess
           \<and> expiresAt d = Some (expirationDate h now this session')"
proof -
  from assms obtain sess where sess: "serialize_session h session' = Inr sess"
    by (auto simp: set_op_def Let_def split: sum.splits)
  let ?u = "\<lparr>set_session = Some sess, set_expiresAt = Some (expirationDate h now this session'),
             set_updatedAt = None\<rparr>"
  let ?P = "\<lambda>d. doc_id d = sessionId"
  from assms sess have ok: "reports 0 (datastore this) = None"
    by (cases "reports 0 (datastore this)")
       (auto simp: set_op_def Let_def ds_update_def next_fault_eq split: if_splits)
  show ?thesis
  proof (cases "find ?P (docs (datastore this))")
    case None
    then have ab: "\<forall>d \<in> set (docs (datastore this)). doc_id d \<noteq> sessionId"
      by (simp add: find_None_iff_absent)
    from assms sess have "this' = this\<lparr>datastore :=
        \<lparr>docs = docs (datastore this) @ [new_doc now sessionId ?u],
         faults = tl (faults (datastore this))\<rparr>\<rparr>"
      by (simp add: set_op_def Let_def ds_update_upsert[OF ab ok])
    moreover have "find ?P (docs (datastore this) @ [new_doc now sessionId ?u])
                     = Some (new_doc now sessionId ?u)"
      using None by (simp add: find_append_absent new_doc_def)
    ultimately show ?thesis
      using sess by (simp add: record_of_def new_doc_def)
  next
    case (Some d0)
    from assms sess have "this' = this\<lparr>datastore :=
        \<lparr>docs = update_first ?P (apply_set now ?u) (docs (datastore this)),
         faults = tl (faults (datastore this))\<rparr>\<rparr>"
      by (simp add: set_op_def Let_def ds_update_present[OF Some ok])
    moreover have "find ?P (update_first ?P (apply_set now ?u) (docs (datastore this)))
                     = Some (apply_set now ?u d0)"
      using Some by (simp add: find_update_first apply_set_def)
    ultimately show ?thesis
      using sess by (simp add: record_of_def apply_set_def)
  qed
qed

subsection \<open>get, one case at a time\<close>

lemma served_unchanged:
  "faults (datastore this) = [] \<Longrightarrow>
     this\<lparr>datastore := (datastore this)\<lparr>faults := tl (faults (datastore this))\<rparr>\<rparr> = this"
  by simp

lemma get_absent:
  assumes "reports 0 (datastore this) = None" and "record_of sessionId this = None"
  shows "get now this sessionId =
           ((None, JNull), this\<lparr>datastore := (datastore this)\<lparr>faults := tl (faults (datastore this))\<rparr>\<rparr>)"
  using assms by (simp add: get_def ds_findOne_def next_fault_eq record_of_def Let_def)

lemma get_live:
  assumes "reports 0 (datastore this) = None" and "record_of sessionId this = Some d"
    and "not_expired now d"
  shows "get now this sessionId =
           ((None, session d),
            this\<lparr>datastore := (datastore this)\<lparr>faults := tl (faults (datastore this))\<rparr>\<rparr>)"
  using assms by (simp add: get_def ds_findOne_def next_fault_eq record_of_def Let_def)

lemma get_stale:
  assumes "reports 0 (datastore this) = None" and "record_of sessionId this = Some d"
    and "\<not> not_expired now d"
  shows "get now this sessionId =
           ((reports 1 (datastore this), JNull),
            this\<lparr>datastore :=
              \<lparr>docs = (if reports 1 (datastore this) = None
                        then remove_first (\<lambda>d. doc_id d = sessionId) (docs (datastore this))
                        else docs (datastore this)),
               faults = tl (tl (faults (datastore this)))\<rparr>\<rparr>)"
  using assms
  by (simp add: get_def ds_findOne_def next_fault_eq record_of_def Let_def destroy_eq reports_tl)

lemma not_expired_iff:
  "not_expired now d \<longleftrightarrow>
     (\<exists>t. expiresAt d = Some (Some t) \<and> now < t) \<or> (expiresAt d = None \<and> truthy (session d))"
  by (auto simp: not_expired_def split: option.splits)

subsection \<open>The filter of all and its destroys\<close>

lemma all_filter_kept:
  "fst (all_filter clock i ds)
     = map snd (filter (\<lambda>(j, d). not_expired (clock j) d) (enumerate i ds))"
proof (induction ds arbitrary: i)
  case Nil
  then show ?case by simp
next
  case (Cons d ds)
  obtain kept stale where r: "all_filter clock (Suc i) ds = (kept, stale)"
    by (cases "all_filter clock (Suc i) ds")
  with Cons.IH[of "Suc i"] show ?case by simp
qed

lemma all_filter_stale:
  "snd (all_filter clock i ds)
     = map (\<lambda>(j, d). doc_id d) (filter (\<lambda>(j, d). \<not> not_expired (clock j) d) (enumerate i ds))"
proof (induction ds arbitrary: i)
  case Nil
  then show ?case by simp
next
  case (Cons d ds)
  obtain kept stale where r: "all_filter clock (Suc i) ds = (kept, stale)"
    by (cases "all_filter clock (Suc i) ds")
  with Cons.IH[of "Suc i"] show ?case by simp
qed

lemma all_filter_kept_subset:
  "k \<in> set (fst (all_filter clock i ds)) \<Longrightarrow> k \<in> set ds \<and> (\<exists>j. not_expired (clock j) k)"
proof (induction ds arbitrary: i)
  case Nil
  then show ?case by simp
next
  case (Cons d ds)
  obtain kept stale where r: "all_filter clock (Suc i) ds = (kept, stale)"
    by (cases "all_filter clock (Suc i) ds")
  show ?case
  proof (cases "k \<in> set kept")
    case True
    with Cons.IH[of "Suc i"] r show ?thesis by simp
  next
    case False
    with Cons.prems r have "k = d \<and> not_expired (clock i) d"
      by (simp split: if_splits)
    then show ?thesis by auto
  qed
qed

lemma all_filter_partition:
  assumes "distinct (map doc_id ds)"
  shows "filter (\<lambda>d. doc_id d \<notin> set (snd (all_filter clock i ds))) ds = fst (all_filter clock i ds)
       \<and> set (snd (all_filter clock i ds)) \<subseteq> doc_id ` set ds"
  using assms
proof (induction ds arbitrary: i)
  case Nil
  then show ?case by simp
next
  case (Cons d ds)
  obtain kept stale where r: "all_filter clock (Suc i) ds = (kept, stale)"
    by (cases "all_filter clock (Suc i) ds")
  from Cons.prems have dd: "distinct (map doc_id ds)" and nd: "doc_id d \<notin> doc_id ` set ds"
    by simp_all
  from Cons.IH[OF dd, of "Suc i"] r
  have ih: "filter (\<lambda>d. doc_id d \<notin> set stale) ds = kept" and sub: "set stale \<subseteq> doc_id ` set ds"
    by simp_all
  from nd sub have ns: "doc_id d \<notin> set stale" by blast
  from nd have nd': "\<forall>x \<in> set ds. doc_id x \<noteq> doc_id d" by (metis imageI)
  show ?case
  proof (cases "not_expired (clock i) d")
    case True
    with r ih sub ns show ?thesis by auto
  next
    case False
    have "filter (\<lambda>x. doc_id x \<notin> set (doc_id d # stale)) ds = filter (\<lambda>x. doc_id x \<notin> set stale) ds"
      using nd' by (intro filter_cong) auto
    with False r ih sub show ?thesis by auto
  qed
qed

lemma all_eq:
  assumes "reports 0 (datastore this) = None"
  shows "all clock this =
           ((None, Some (map session (fst (all_filter clock 0 (docs (datastore this)))))),
            destroy_stale
              (this\<lparr>datastore := (datastore this)\<lparr>faults := tl (faults (datastore this))\<rparr>\<rparr>)
              (snd (all_filter clock 0 (docs (datastore this)))))"
  using assms by (simp add: all_def ds_find_def next_fault_eq Let_def split: prod.splits)

lemma all_failed:
  assumes "reports 0 (datastore this) = Some e"
  shows "all clock this =
           ((Some e, None),
            this\<lparr>datastore := (datastore this)\<lparr>faults := tl (faults (datastore this))\<rparr>\<rparr>)"
  using assms by (simp add: all_def ds_find_def next_fault_eq Let_def)

lemma destroy_stale_emitted:
  "emitted (destroy_stale this ids)
     = emitted this @ error_events (take (length ids) (faults (datastore this)))"
proof (induction ids arbitrary: this)
  case Nil
  then show ?case by (simp add: error_events_def)
next
  case (Cons sid ids)
  show ?case
  proof (cases "faults (datastore this)")
    case Nil
    then show ?thesis
      using Cons.IH by (simp add: destroy_eq reports_def error_events_def)
  next
    case (Cons f fs)
    then show ?thesis
      using Cons.IH by (cases f) (simp_all add: destroy_eq reports_def error_events_def emit_def)
  qed
qed

lemma destroy_stale_docs:
  assumes "faults (datastore this) = []" and "distinct (map doc_id (docs (datastore this)))"
  shows "destroy_stale this ids =
           this\<lparr>datastore := (datastore this)
                  \<lparr>docs := filter (\<lambda>d. doc_id d \<notin> set ids) (docs (datastore this))\<rparr>\<rparr>"
  using assms
proof (induction ids arbitrary: this)
  case Nil
  then show ?case by simp
next
  case (Cons sid ids)
  let ?this' = "this\<lparr>datastore := (datastore this)
                  \<lparr>docs := filter (\<lambda>d. doc_id d \<noteq> sid) (docs (datastore this))\<rparr>\<rparr>"
  have d: "destroy this sid = (None, ?this')"
    using Cons.prems by (simp add: destroy_eq reports_Nil remove_first_distinct)
  have "destroy_stale ?this' ids =
          ?this'\<lparr>datastore := (datastore ?this')
                  \<lparr>docs := filter (\<lambda>d. doc_id d \<notin> set ids) (docs (datastore ?this'))\<rparr>\<rparr>"
    using Cons.prems by (intro Cons.IH) (simp_all add: distinct_map_filter)
  moreover have "filter (\<lambda>d. doc_id d \<notin> set ids) (filter (\<lambda>d. doc_id d \<noteq> sid) (docs (datastore this)))
      = filter (\<lambda>d. doc_id d \<notin> set (sid # ids)) (docs (datastore this))"
    by (auto intro: filter_cong)
  ultimately show ?case using d by simp
qed

subsection \<open>Writes keep the other records\<close>

lemma filter_update_first:
  "(\<And>x. P x \<Longrightarrow> P (f x)) \<Longrightarrow> filter (\<lambda>x. \<not> P x) (update_first P f xs) = filter (\<lambda>x. \<not> P x) xs"
  by (induction xs) auto

lemma find_filter_absent: "find P (filter (\<lambda>x. \<not> P x) xs) = None"
  by (simp add: find_None_iff_absent)

lemma find_unique:
  assumes "distinct (map g xs)" and "find (\<lambda>x. g x = k) xs = Some d" and "x \<in> set xs" and "g x = k"
  shows "x = d"
proof -
  from find_Some_holds[OF assms(2)] have "g d = k" "d \<in> set xs" by simp_all
  with assms(1,3,4) show ?thesis
    by (metis distinct_map inj_on_def)
qed

lemma doc_id_apply_set: "doc_id (apply_set now u d) = doc_id d"
  by (simp add: apply_set_def)

lemma ds_update_frame:
  assumes "ds_update now sessionId u upsert ds = (r, ds')"
  shows "filter (\<lambda>d. doc_id d \<noteq> sessionId) (docs ds') = filter (\<lambda>d. doc_id d \<noteq> sessionId) (docs ds)"
    and "distinct (map doc_id (docs ds)) \<Longrightarrow> distinct (map doc_id (docs ds'))"
    and "faults ds' = tl (faults ds)"
proof -
  let ?P = "\<lambda>d. doc_id d = sessionId"
  consider (fail) e where "reports 0 ds = Some e"
    | (hit) d where "reports 0 ds = None" "find ?P (docs ds) = Some d"
    | (miss) "reports 0 ds = None" "find ?P (docs ds) = None"
    by (cases "reports 0 ds"; cases "find ?P (docs ds)") auto
  then have "filter (\<lambda>d. doc_id d \<noteq> sessionId) (docs ds') = filter (\<lambda>d. doc_id d \<noteq> sessionId) (docs ds)
      \<and> (distinct (map doc_id (docs ds)) \<longrightarrow> distinct (map doc_id (docs ds')))
      \<and> faults ds' = tl (faults ds)"
  proof cases
    case fail
    with assms show ?thesis by (auto simp: ds_update_def next_fault_eq)
  next
    case hit
    from assms ds_update_present[OF hit(2,1), of now u upsert]
    have ds': "ds' = \<lparr>docs = update_first ?P (apply_set now u) (docs ds), faults = tl (faults ds)\<rparr>"
      by simp
    have "filter (\<lambda>d. \<not> ?P d) (update_first ?P (apply_set now u) (docs ds))
            = filter (\<lambda>d. \<not> ?P d) (docs ds)"
      by (rule filter_update_first) (simp add: doc_id_apply_set)
    moreover have "map doc_id (update_first ?P (apply_set now u) (docs ds)) = map doc_id (docs ds)"
      by (rule map_update_first) (simp add: doc_id_apply_set)
    ultimately show ?thesis using ds' by simp
  next
    case miss
    then have ab: "\<forall>d \<in> set (docs ds). doc_id d \<noteq> sessionId"
      by (simp add: find_None_iff_absent)
    show ?thesis
    proof (cases upsert)
      case True
      with assms ds_update_upsert[OF ab miss(1), of now u]
      have "ds' = \<lparr>docs = docs ds @ [new_doc now sessionId u], faults = tl (faults ds)\<rparr>"
        by simp
      moreover have "sessionId \<notin> doc_id ` set (docs ds)" using ab by auto
      ultimately show ?thesis by (simp add: new_doc_def)
    next
      case False
      with assms ds_update_absent[OF ab, of now u]
      have "ds' = ds\<lparr>faults := tl (faults ds)\<rparr>" by simp
      then show ?thesis by simp
    qed
  qed
  then show "filter (\<lambda>d. doc_id d \<noteq> sessionId) (docs ds') = filter (\<lambda>d. doc_id d \<noteq> sessionId) (docs ds)"
    and "distinct (map doc_id (docs ds)) \<Longrightarrow> distinct (map doc_id (docs ds'))"
    and "faults ds' = tl (faults ds)" by simp_all
qed

lemma set_op_frame:
  assumes "set_op h now this sessionId session' = Inr (e, this1)"
  shows "filter (\<lambda>d. doc_id d \<noteq> sessionId) (docs (datastore this1))
           = filter (\<lambda>d. doc_id d \<noteq> sessionId) (docs (datastore this))"
    and "unique_ids this \<Longrightarrow> unique_ids this1"
    and "faults (datastore this1) = tl (faults (datastore this))"
    and "emitted this1 = emitted this"
proof -
  from assms obtain sess where sess: "serialize_session h session' = Inr sess"
    by (auto simp: set_op_def Let_def split: sum.splits)
  let ?u = "\<lparr>set_session = Some sess, set_expiresAt = Some (expirationDate h now this session'),
             set_updatedAt = None\<rparr>"
  obtain r ds' where u: "ds_update now sessionId ?u True (datastore this) = (r, ds')"
    by (cases "ds_update now sessionId ?u True (datastore this)")
  with assms sess have t: "this1 = this\<lparr>datastore := ds'\<rparr>"
    by (auto simp: set_op_def Let_def split: prod.splits)
  from ds_update_frame[OF u] t
  show "filter (\<lambda>d. doc_id d \<noteq> sessionId) (docs (datastore this1))
           = filter (\<lambda>d. doc_id d \<noteq> sessionId) (docs (datastore this))"
    and "unique_ids this \<Longrightarrow> unique_ids this1"
    and "faults (datastore this1) = tl (faults (datastore this))"
    and "emitted this1 = emitted this"
    by (simp_all add: unique_ids_def)
qed

lemma destroy_unique:
  assumes "unique_ids this" and "faults (datastore this) = []"
  shows "destroy this sessionId =
           (None, this\<lparr>datastore := (datastore this)
              \<lparr>docs := filter (\<lambda>d. doc_id d \<noteq> sessionId) (docs (datastore this))\<rparr>\<rparr>)"
    and "remove_first (\<lambda>d. doc_id d = sessionId) (docs (datastore this))
           = filter (\<lambda>d. doc_id d \<noteq> sessionId) (docs (datastore this))"
  using assms by (simp_all add: destroy_eq reports_Nil remove_first_distinct unique_ids_def)

lemma get_gone:
  assumes "faults (datastore this) = []"
    and "docs (datastore this) = filter (\<lambda>d. doc_id d \<noteq> sessionId) xs"
  shows "get now this sessionId = ((None, JNull), this)"
proof -
  have "record_of sessionId this = None"
    using assms(2) find_filter_absent[of "\<lambda>d. doc_id d = sessionId" xs]
    by (simp add: record_of_def)
  from get_absent[OF reports_Nil[OF assms(1)] this] assms(1) show ?thesis by simp
qed

lemma get_stale_unique:
  assumes "faults (datastore this) = []" and "unique_ids this"
    and "record_of sessionId this = Some d" and "\<not> not_expired now d"
  shows "get now this sessionId =
           ((None, JNull),
            this\<lparr>datastore := (datastore this)
              \<lparr>docs := filter (\<lambda>d. doc_id d \<noteq> sessionId) (docs (datastore this))\<rparr>\<rparr>)"
  using get_stale[OF reports_Nil[OF assms(1)] assms(3,4)] assms(1,2)
  by (simp add: reports_Nil remove_first_distinct unique_ids_def)

lemma copy_props_total:
  assumes "\<forall>v. (''cookie'', v) \<in> set ps \<longrightarrow> v \<noteq> JUndefined \<and> v \<noteq> JNull"
  shows "\<exists>qs. copy_props h ps = Inr qs"
  using assms
proof (induction ps)
  case Nil
  then show ?case by simp
next
  case (Cons p ps)
  obtain key v where p: "p = (key, v)" by (cases p)
  from Cons.prems have "\<forall>v. (''cookie'', v) \<in> set ps \<longrightarrow> v \<noteq> JUndefined \<and> v \<noteq> JNull"
    by simp
  from Cons.IH[OF this] obtain qs where "copy_props h ps = Inr qs" by blast
  with Cons.prems p show ?case by auto
qed

text \<open>
  A session that passes the test \<^verbatim>\<open>session && session.cookie && session.cookie.expires\<close> is
  an object with a truthy cookie, so the copy loop of \<^verbatim>\<open>set\<close> does not throw on it.
\<close>

lemma serialize_session_cookie_path:
  assumes "has_cookie_expires session'" and "session' = JObj ps m" and "distinct (map fst ps)"
  shows "\<exists>sess. serialize_session h session' = Inr sess"
proof -
  from assms(1,2) obtain c where c: "map_of ps ''cookie'' = Some c" "truthy c"
    by (auto simp: has_cookie_expires_def split: option.splits)
  have "v \<noteq> JUndefined \<and> v \<noteq> JNull" if "(''cookie'', v) \<in> set ps" for v
  proof -
    from that assms(3) have "map_of ps ''cookie'' = Some v" by simp
    with c show ?thesis by auto
  qed
  then obtain qs where "copy_props h ps = Inr qs" using copy_props_total[of ps h] by blast
  with assms(2) show ?thesis by (simp add: serialize_session_def)
qed

lemma set_op_succeeds:
  assumes "serialize_session h session' = Inr sess" and "reports 0 (datastore this) = None"
  shows "\<exists>this1. set_op h now this sessionId session' = Inr (None, this1)"
proof (cases "find (\<lambda>d. doc_id d = sessionId) (docs (datastore this))")
  case None
  then have "\<forall>d \<in> set (docs (datastore this)). doc_id d \<noteq> sessionId"
    by (simp add: find_None_iff_absent)
  from ds_update_upsert[OF this assms(2)] assms(1) show ?thesis
    by (simp add: set_op_def Let_def)
next
  case (Some d)
  from ds_update_present[OF Some assms(2)] assms(1) show ?thesis
    by (simp add: set_op_def Let_def)
qed

subsection \<open>Every record the adapter holds carries its payload\<close>

text \<open>
  The copy \<^verbatim>\<open>set\<close> stores is an object, hence truthy, and no method writes a payload but
  \<^verbatim>\<open>set\<close>: starting from an empty collection, every record the adapter ever holds has a
  truthy payload.
\<close>

lemma serialize_session_truthy: "serialize_session h session' = Inr sess \<Longrightarrow> truthy sess"
  by (auto simp: serialize_session_def split: sum.splits)

lemma list_all_update_first:
  "list_all Q xs \<Longrightarrow> (\<And>x. Q x \<Longrightarrow> Q (f x)) \<Longrightarrow> list_all Q (update_first P f xs)"
  by (induction xs) auto

lemma list_all_remove_first: "list_all Q xs \<Longrightarrow> list_all Q (remove_first P xs)"
  by (induction xs) auto

lemma payloads_present_fresh: "payloads_present (NeDBStore opts \<lparr>docs = [], faults = fs\<rparr>)"
  by (simp add: payloads_present_def NeDBStore_def Let_def)

lemma payloads_present_ds_update:
  assumes "list_all (\<lambda>d. truthy (session d)) (docs ds)"
    and "\<And>s. set_session u = Some s \<Longrightarrow> truthy s" and "upsert \<Longrightarrow> set_session u \<noteq> None"
  shows "list_all (\<lambda>d. truthy (session d)) (docs (snd (ds_update now sessionId u upsert ds)))"
proof -
  have a: "truthy (session (apply_set now u d))" if "truthy (session d)" for d
    using that assms(2) by (cases "set_session u") (simp_all add: apply_set_def)
  have n: "truthy (session (new_doc now sessionId u))" if upsert
    using assms(2) assms(3)[OF that] by (cases "set_session u") (simp_all add: new_doc_def)
  show ?thesis
  proof (cases "reports 0 ds")
    case None
    then show ?thesis
      using assms(1) a n by (auto simp: ds_update_def next_fault_eq intro: list_all_update_first)
  next
    case (Some e)
    then show ?thesis using assms(1) by (simp add: ds_update_def next_fault_eq)
  qed
qed

lemma payloads_present_set_op:
  assumes "payloads_present this" and "set_op h now this sessionId session' = Inr (e, this1)"
  shows "payloads_present this1"
proof -
  from assms(2) obtain sess where sess: "serialize_session h session' = Inr sess"
    by (auto simp: set_op_def Let_def split: sum.splits)
  let ?u = "\<lparr>set_session = Some sess, set_expiresAt = Some (expirationDate h now this session'),
             set_updatedAt = None\<rparr>"
  from assms(2) sess
  have "this1 = this\<lparr>datastore := snd (ds_update now sessionId ?u True (datastore this))\<rparr>"
    by (auto simp: set_op_def Let_def split: prod.splits)
  moreover have "list_all (\<lambda>d. truthy (session d))
                   (docs (snd (ds_update now sessionId ?u True (datastore this))))"
    using assms(1) serialize_session_truthy[OF sess]
    by (intro payloads_present_ds_update) (simp_all add: payloads_present_def)
  ultimately show ?thesis by (simp add: payloads_present_def)
qed

lemma payloads_present_touch:
  assumes "payloads_present this"
  shows "payloads_present (snd (touch h now this sessionId session'))"
proof -
  let ?u = "\<lparr>set_session = None,
             set_expiresAt = (if has_cookie_expires session'
                              then Some (new_Date h (cookie_expires session')) else None),
             set_updatedAt = Some (Some now)\<rparr>"
  have "list_all (\<lambda>d. truthy (session d))
          (docs (snd (ds_update now sessionId ?u False (datastore this))))"
    using assms by (intro payloads_present_ds_update) (simp_all add: payloads_present_def)
  moreover have "datastore (snd (touch h now this sessionId session'))
      = snd (ds_update now sessionId ?u False (datastore this))"
    by (simp add: touch_def Let_def split: prod.splits)
  ultimately show ?thesis
    by (simp add: payloads_present_def)
qed

lemma payloads_present_destroy:
  assumes "payloads_present this"
  shows "payloads_present (snd (destroy this sessionId))"
  using assms by (simp add: destroy_eq payloads_present_def list_all_remove_first)

lemma payloads_present_clear:
  assumes "payloads_present this"
  shows "payloads_present (snd (clear this))"
  using assms
  by (cases "reports 0 (datastore this)")
     (simp_all add: clear_def ds_remove_def next_fault_eq payloads_present_def Let_def
        list_all_iff)

lemma payloads_present_get:
  assumes "payloads_present this"
  shows "payloads_present (snd (get now this sessionId))"
proof -
  have s: "payloads_present (this\<lparr>datastore := (datastore this)\<lparr>faults := fs\<rparr>\<rparr>)" for fs
    using assms by (simp add: payloads_present_def)
  let ?this' = "this\<lparr>datastore := (datastore this)\<lparr>faults := tl (faults (datastore this))\<rparr>\<rparr>"
  have "snd (get now this sessionId) = ?this'
        \<or> snd (get now this sessionId) = snd (destroy ?this' sessionId)"
    by (auto simp: get_def ds_findOne_def next_fault_eq Let_def split: option.splits prod.splits)
  with s[of "tl (faults (datastore this))"] payloads_present_destroy[OF s, of _ sessionId]
  show ?thesis by auto
qed

lemma payloads_present_destroy_stale:
  "payloads_present this \<Longrightarrow> payloads_present (destroy_stale this ids)"
proof (induction ids arbitrary: this)
  case Nil
  then show ?case by simp
next
  case (Cons sid ids)
  obtain e this' where d: "destroy this sid = (e, this')" by (cases "destroy this sid")
  with payloads_present_destroy[OF Cons.prems, of sid] have p: "payloads_present this'" by simp
  then have "payloads_present (emit ''error'' e this')"
    by (simp add: payloads_present_def emit_def)
  with p d Cons.IH show ?case by simp
qed

lemma payloads_present_all:
  assumes "payloads_present this"
  shows "payloads_present (snd (all clock this))"
proof -
  have s: "payloads_present (this\<lparr>datastore := (datastore this)\<lparr>faults := fs\<rparr>\<rparr>)" for fs
    using assms by (simp add: payloads_present_def)
  let ?this' = "this\<lparr>datastore := (datastore this)\<lparr>faults := tl (faults (datastore this))\<rparr>\<rparr>"
  have "snd (all clock this) = ?this'
        \<or> (\<exists>ids. snd (all clock this) = destroy_stale ?this' ids)"
    by (auto simp: all_def ds_find_def next_fault_eq Let_def split: option.splits prod.splits)
  with s[of "tl (faults (datastore this))"] payloads_present_destroy_stale[OF s]
  show ?thesis by auto
qed

section \<open>The claims\<close>

subsection \<open>get\<close>

text \<open>
  C1.  Provided the lookup itself succeeds, \<^verbatim>\<open>get\<close> has three outcomes on a store whose
  records carry their session payload.  With no record of the id the callback receives
  \<^verbatim>\<open>(null, null)\<close>.  A record that is live, that is, whose \<^verbatim>\<open>expiresAt\<close> is absent or lies
  strictly after the current time, is handed over as \<^verbatim>\<open>(null, payload)\<close>, and nothing is
  changed.  A record that is not live is stale: the adapter issues a destroy for the
  id and the callback receives \<^verbatim>\<open>(destroyError, null)\<close>, so a stale record is never handed
  over; the record is gone unless the removal failed.
\<close>

theorem get_outcomes:
  assumes "reports 0 (datastore this) = None" and "payloads_present this"
  shows "let ds = datastore this;
             this1 = this\<lparr>datastore := ds\<lparr>faults := tl (faults ds)\<rparr>\<rparr>;
             this2 = this\<lparr>datastore :=
                       \<lparr>docs = (if reports 1 ds = None
                                 then remove_first (\<lambda>d. doc_id d = sessionId) (docs ds)
                                 else docs ds),
                        faults = tl (tl (faults ds))\<rparr>\<rparr>
         in case record_of sessionId this of
              None \<Rightarrow> get now this sessionId = ((None, JNull), this1)
            | Some d \<Rightarrow>
                if expiresAt d = None \<or> (\<exists>t. expiresAt d = Some (Some t) \<and> now < t)
                then get now this sessionId = ((None, session d), this1)
                else get now this sessionId = ((reports 1 ds, JNull), this2)"
proof (cases "record_of sessionId this")
  case None
  from get_absent[OF assms(1) None] None show ?thesis by (simp add: Let_def)
next
  case (Some d)
  from Some have "d \<in> set (docs (datastore this))"
    using find_Some_holds[of "\<lambda>d. doc_id d = sessionId" "docs (datastore this)" d]
    by (simp add: record_of_def)
  with assms(2) have "truthy (session d)"
    by (simp add: payloads_present_def list_all_iff)
  then have live: "not_expired now d \<longleftrightarrow>
      expiresAt d = None \<or> (\<exists>t. expiresAt d = Some (Some t) \<and> now < t)"
    by (auto simp: not_expired_iff)
  show ?thesis
  proof (cases "not_expired now d")
    case True
    from get_live[OF assms(1) Some True] Some True live show ?thesis
      by (simp add: Let_def del: not_ex)
  next
    case False
    from get_stale[OF assms(1) Some False] Some False live show ?thesis
      by (simp add: Let_def del: not_ex de_Morgan_disj)
  qed
qed

theorem get_outcomes_witness:
  "get 60 sample_store ''nobody'' = ((None, JNull), sample_store)
   \<and> get 60 sample_store ''live'' = ((None, JObj [(''user'', JStr ''ann'')] None), sample_store)
   \<and> get 60 sample_store ''legacy'' = ((None, JObj [(''user'', JStr ''eve'')] None), sample_store)
   \<and> get 60 sample_store ''stale''
       = ((None, JNull), sample_store\<lparr>datastore := \<lparr>docs = [doc_live, doc_legacy], faults = []\<rparr>\<rparr>)
   \<and> get 60 flaky_store ''stale'' = ((Some (StoreError ''EIO''), JNull), sample_store)"
proof -
  have r: "reports 0 (datastore sample_store) = None" "reports 0 (datastore flaky_store) = None"
    and p: "payloads_present sample_store" "payloads_present flaky_store"
    by (simp_all add: sample_store_def flaky_store_def doc_live_def doc_stale_def doc_legacy_def
        reports_def payloads_present_def)
  from get_outcomes[OF r(1) p(1), of "''nobody''" 60] get_outcomes[OF r(1) p(1), of "''live''" 60]
    get_outcomes[OF r(1) p(1), of "''legacy''" 60] get_outcomes[OF r(1) p(1), of "''stale''" 60]
    get_outcomes[OF r(2) p(2), of "''stale''" 60]
  show ?thesis
    by (simp add: sample_store_def doc_live_def doc_stale_def doc_legacy_def flaky_store_def
        reports_def record_of_def Let_def)
qed

subsection \<open>set\<close>

text \<open>
  C2 (as amended).  Whenever \<^verbatim>\<open>set\<close> reports no error, the record stored under the id has
  an \<^verbatim>\<open>expiresAt\<close>: it is \<^verbatim>\<open>new Date(session.cookie.expires)\<close> whenever \<^verbatim>\<open>session\<close>,
  \<^verbatim>\<open>session.cookie\<close> and \<^verbatim>\<open>session.cookie.expires\<close> are all truthy, which is an Invalid Date
  when that value cannot be coerced to a timestamp; otherwise it is the write time plus
  \<^verbatim>\<open>_defaultExpiry\<close> (an Invalid Date if that leaves the range of time values).
  \<^verbatim>\<open>_defaultExpiry\<close> is 14 days, 1209600000 ms, when the configured value is no number, not
  finite or not positive, and it is the configured value when that is a positive integer
  below \<open>10^21\<close>.
\<close>

theorem set_expiresAt:
  "(set_op h now this sessionId session' = Inr (None, this') \<longrightarrow>
      (\<exists>d. record_of sessionId this' = Some d \<and>
           expiresAt d =
             Some (if truthy session' \<and> truthy (get_prop session' ''cookie'')
                      \<and> truthy (get_prop (get_prop session' ''cookie'') ''expires'')
                   then new_Date h (get_prop (get_prop session' ''cookie'') ''expires'')
                   else (case this_defaultExpiry this of
                           None \<Rightarrow> None
                         | Some de \<Rightarrow> if \<bar>now + de\<bar> \<le> 8640000000000000 then Some (now + de)
                                      else None))))
   \<and> ((\<forall>x. v \<noteq> JNum x) \<or> v = JNum NaN \<or> v = JNum PosInf \<or> v = JNum NegInf
        \<or> (\<exists>neg s e. v = JNum (Fin neg s e) \<and> (neg \<or> s = 0)) \<longrightarrow>
      this_defaultExpiry (NeDBStore (opts\<lparr>defaultExpiry := v\<rparr>) ds) = Some 1209600000)
   \<and> (0 < i \<and> i < 10 ^ 21 \<longrightarrow>
      this_defaultExpiry (NeDBStore (opts\<lparr>defaultExpiry := JNum (num_of_int i)\<rparr>) ds) = Some i)"
proof (intro conjI impI)
  assume "set_op h now this sessionId session' = Inr (None, this')"
  from set_op_stores[OF this] show "\<exists>d. record_of sessionId this' = Some d \<and>
           expiresAt d =
             Some (if truthy session' \<and> truthy (get_prop session' ''cookie'')
                      \<and> truthy (get_prop (get_prop session' ''cookie'') ''expires'')
                   then new_Date h (get_prop (get_prop session' ''cookie'') ''expires'')
                   else (case this_defaultExpiry this of
                           None \<Rightarrow> None
                         | Some de \<Rightarrow> if \<bar>now + de\<bar> \<le> 8640000000000000 then Some (now + de)
                                      else None))"
    by (auto simp: expirationDate_def has_cookie_expires_def cookie_expires_def time_clip_int
          max_time_def split: option.splits)
next
  assume "(\<forall>x. v \<noteq> JNum x) \<or> v = JNum NaN \<or> v = JNum PosInf \<or> v = JNum NegInf
        \<or> (\<exists>neg s e. v = JNum (Fin neg s e) \<and> (neg \<or> s = 0))"
  then have "\<not> positive_finite_number v"
    by (cases v rule: positive_finite_number.cases) auto
  then show "this_defaultExpiry (NeDBStore (opts\<lparr>defaultExpiry := v\<rparr>) ds) = Some 1209600000"
    by (simp add: NeDBStore_def Let_def default_expiry_fallback)
next
  assume "0 < i \<and> i < 10 ^ 21"
  then show "this_defaultExpiry (NeDBStore (opts\<lparr>defaultExpiry := JNum (num_of_int i)\<rparr>) ds) = Some i"
    by (simp add: NeDBStore_def Let_def default_expiry_integer)
qed


theorem set_expiresAt_witness:
  "(\<exists>this'. set_op sample_host 1000 fresh_store ''s1'' sample_session = Inr (None, this')
       \<and> (\<exists>d. record_of ''s1'' this' = Some d \<and> expiresAt d = Some (Some 5000)))
   \<and> (\<exists>this'. set_op sample_host 1000 fresh_store ''s1'' (JObj [] None) = Inr (None, this')
       \<and> (\<exists>d. record_of ''s1'' this' = Some d \<and> expiresAt d = Some (Some 1209601000)))
   \<and> this_defaultExpiry (NeDBStore (no_options\<lparr>defaultExpiry := JStr ''60000''\<rparr>) empty_datastore)
       = Some 1209600000
   \<and> this_defaultExpiry (NeDBStore (no_options\<lparr>defaultExpiry := JNum (num_of_int 60000)\<rparr>)
         empty_datastore) = Some 60000"
proof -
  obtain a where a: "set_op sample_host 1000 fresh_store ''s1'' sample_session = Inr (None, a)"
    by (simp add: sample_host_def no_options_def empty_datastore_def fresh_store_def sample_session_def
      construction_defs collection_defs set_op_def serialize_session_def expirationDate_def has_cookie_expires_def
      cookie_expires_def)
  obtain b where b: "set_op sample_host 1000 fresh_store ''s1'' (JObj [] None) = Inr (None, b)"
    by (simp add: sample_host_def no_options_def empty_datastore_def fresh_store_def
      construction_defs collection_defs set_op_def serialize_session_def expirationDate_def has_cookie_expires_def
      cookie_expires_def)
  have d: "this_defaultExpiry fresh_store = Some 1209600000"
    by (simp add: sample_host_def no_options_def empty_datastore_def fresh_store_def construction_defs)
  from a set_expiresAt[where h = sample_host and now = 1000 and this = fresh_store
      and sessionId = "''s1''" and session' = sample_session and this' = a]
  have "\<exists>d. record_of ''s1'' a = Some d \<and> expiresAt d = Some (Some 5000)"
    by (simp add: sample_session_def)
  moreover
  from b d set_expiresAt[where h = sample_host and now = 1000 and this = fresh_store
      and sessionId = "''s1''" and session' = "JObj [] None" and this' = b]
  have "\<exists>d. record_of ''s1'' b = Some d \<and> expiresAt d = Some (Some 1209601000)"
    by simp
  moreover
  from set_expiresAt[where v = "JStr ''60000''" and opts = no_options and ds = empty_datastore]
  have "this_defaultExpiry (NeDBStore (no_options\<lparr>defaultExpiry := JStr ''60000''\<rparr>)
          empty_datastore) = Some 1209600000"
    by simp
  moreover
  from set_expiresAt[where i = 60000 and opts = no_options and ds = empty_datastore]
  have "this_defaultExpiry (NeDBStore (no_options\<lparr>defaultExpiry := JNum (num_of_int 60000)\<rparr>)
          empty_datastore) = Some 60000"
    by simp
  ultimately show ?thesis using a b by blast
qed

text \<open>
  The claim as stated fails on a cookie whose \<^verbatim>\<open>expires\<close> is present but cannot be coerced to
  a timestamp, an Invalid Date: the record does not get the write time plus the
  default expiry, 1000 + 1209600000, but an Invalid Date.
\<close>

theorem set_invalid_expiry_counterexample:
  "new_Date sample_host (cookie_expires invalid_expiry_session) = None
   \<and> this_defaultExpiry fresh_store = Some 1209600000
   \<and> set_op sample_host 1000 fresh_store ''s1'' invalid_expiry_session
       = Inr (None, fresh_store\<lparr>datastore :=
           \<lparr>docs = [\<lparr>doc_id = ''s1'', session = invalid_expiry_session, expiresAt = Some None,
                     createdAt = Some (Some 1000), updatedAt = Some (Some 1000)\<rparr>],
            faults = []\<rparr>\<rparr>)"
  by (simp add: sample_host_def no_options_def empty_datastore_def fresh_store_def
      invalid_expiry_session_def construction_defs collection_defs set_op_def serialize_session_def expirationDate_def has_cookie_expires_def
      cookie_expires_def)

subsection \<open>touch\<close>

text \<open>
  C6.  When no record has the id, \<^verbatim>\<open>touch\<close> creates none: it leaves the adapter and the
  documents of the collection as they are (only the collection's fault plan moves on by
  the one call), and, the collection serving that call, the callback receives the
  error \<^verbatim>\<open>No Session exists with ID\<close> for the id.
\<close>

theorem touch_missing_record:
  assumes "record_of sessionId this = None"
  shows "snd (touch h now this sessionId session') =
           this\<lparr>datastore := (datastore this)\<lparr>faults := tl (faults (datastore this))\<rparr>\<rparr>
       \<and> (reports 0 (datastore this) = None \<longrightarrow>
            fst (touch h now this sessionId session') = Some (NoSessionError sessionId))"
  using assms
  by (simp add: touch_def ds_update_absent Let_def record_of_def find_None_iff_absent)


theorem touch_missing_record_witness:
  "touch sample_host 60 sample_store ''nobody'' sample_session
     = (Some (NoSessionError ''nobody''), sample_store)"
  using touch_missing_record[of "''nobody''" sample_store sample_host 60 sample_session]
  by (simp add: sample_host_def sample_store_def doc_live_def doc_stale_def doc_legacy_def
      sample_session_def reports_def record_of_def prod_eq_iff)

text \<open>
  C7.  When a record has the id and the collection serves the call, \<^verbatim>\<open>touch\<close> reports no
  error and changes one document only, the first with the id: its \<^verbatim>\<open>updatedAt\<close> becomes
  the current time, and its \<^verbatim>\<open>expiresAt\<close> becomes \<^verbatim>\<open>new Date(session.cookie.expires)\<close> if the
  supplied session's cookie carries an expiration and stays as it was otherwise.  The
  payload and the other fields of that document, and all other documents, are as
  before.
\<close>

theorem touch_existing_record:
  assumes "record_of sessionId this = Some d" and "reports 0 (datastore this) = None"
  shows "\<exists>i < length (docs (datastore this)).
           docs (datastore this) ! i = d
         \<and> (\<forall>j < i. doc_id (docs (datastore this) ! j) \<noteq> sessionId)
         \<and> touch h now this sessionId session' =
             (None,
              this\<lparr>datastore :=
                \<lparr>docs = (docs (datastore this))
                          [i := d\<lparr>expiresAt := (if has_cookie_expires session'
                                                 then Some (new_Date h (cookie_expires session'))
                                                 else expiresAt d),
                                  updatedAt := Some (Some now)\<rparr>],
                 faults = tl (faults (datastore this))\<rparr>\<rparr>)"
proof -
  let ?u = "\<lparr>set_session = None,
             set_expiresAt = (if has_cookie_expires session'
                              then Some (new_Date h (cookie_expires session')) else None),
             set_updatedAt = Some (Some now)\<rparr>"
  have f: "find (\<lambda>d. doc_id d = sessionId) (docs (datastore this)) = Some d"
    using assms(1) by (simp add: record_of_def)
  from update_first_index[OF f, of "apply_set now ?u"]
  obtain i where i: "i < length (docs (datastore this))" "docs (datastore this) ! i = d"
    "\<forall>j < i. doc_id (docs (datastore this) ! j) \<noteq> sessionId"
    "update_first (\<lambda>d. doc_id d = sessionId) (apply_set now ?u) (docs (datastore this))
       = (docs (datastore this))[i := apply_set now ?u d]" by blast
  have a: "apply_set now ?u d =
             d\<lparr>expiresAt := (if has_cookie_expires session'
                              then Some (new_Date h (cookie_expires session'))
                              else expiresAt d),
               updatedAt := Some (Some now)\<rparr>"
    by (simp add: apply_set_def)
  have "touch h now this sessionId session' =
          (None, this\<lparr>datastore :=
             \<lparr>docs = (docs (datastore this))[i := apply_set now ?u d],
              faults = tl (faults (datastore this))\<rparr>\<rparr>)"
    unfolding touch_def Let_def ds_update_present[OF f assms(2)] i(4) by simp
  with i(1-3) a show ?thesis by auto
qed


theorem touch_existing_record_witness:
  "touch sample_host 60 sample_store ''live'' sample_session
     = (None, sample_store\<lparr>datastore :=
          \<lparr>docs = [doc_live\<lparr>expiresAt := Some (Some 5000), updatedAt := Some (Some 60)\<rparr>,
                    doc_stale, doc_legacy],
           faults = []\<rparr>\<rparr>)
   \<and> touch sample_host 60 sample_store ''stale'' (JObj [] None)
     = (None, sample_store\<lparr>datastore :=
          \<lparr>docs = [doc_live, doc_stale\<lparr>updatedAt := Some (Some 60)\<rparr>, doc_legacy],
           faults = []\<rparr>\<rparr>)"
proof -
  have l: "record_of ''live'' sample_store = Some doc_live"
    and s: "record_of ''stale'' sample_store = Some doc_stale"
    and r: "reports 0 (datastore sample_store) = None"
    by (simp_all add: sample_store_def doc_live_def doc_stale_def doc_legacy_def record_of_def reports_def)
  from touch_existing_record[OF l r, of sample_host 60 sample_session]
    touch_existing_record[OF s r, of sample_host 60 "JObj [] None"]
  show ?thesis
    by (simp add: sample_host_def sample_store_def doc_live_def doc_stale_def doc_legacy_def
      sample_session_def collection_defs touch_def has_cookie_expires_def cookie_expires_def)
qed

subsection \<open>Construction\<close>

text \<open>
  C8 (as amended).  Every value of \<^verbatim>\<open>autoCompactInterval\<close> other than \<^verbatim>\<open>null\<close>, so every
  number, is normalised to an interval within the closed range [5000, 86400000].  An
  integer below \<open>10^21\<close> in magnitude is clamped to the range: below 5000 it becomes 5000,
  above 86400000 it becomes 86400000, in between it passes unchanged.  With no value
  given the interval is one day.  \<^verbatim>\<open>null\<close> is kept as \<^verbatim>\<open>null\<close>.  Periodic compaction is
  scheduled, at the normalised interval, exactly when the store is not in-memory and
  the interval is not \<^verbatim>\<open>null\<close>.
\<close>

theorem autoCompactInterval_normalised:
  "(v \<noteq> JNull \<longrightarrow> (\<exists>a. aci_of v = Some a \<and> 5000 \<le> a \<and> a \<le> 86400000))
   \<and> (\<bar>i\<bar> < 10 ^ 21 \<longrightarrow> aci_of (JNum (num_of_int i)) = Some (max 5000 (min i 86400000)))
   \<and> aci_of JUndefined = Some 86400000
   \<and> aci_of JNull = None
   \<and> autocompaction (NeDBStore opts ds)
       = (if truthy (inMemoryOnly opts) then None else aci_of (autoCompactInterval opts))"
proof (intro conjI impI)
  assume "v \<noteq> JNull"
  then show "\<exists>a. aci_of v = Some a \<and> 5000 \<le> a \<and> a \<le> 86400000"
    using clamp_aci_range by (simp add: aci_of_def)
next
  assume "\<bar>i\<bar> < 10 ^ 21"
  then show "aci_of (JNum (num_of_int i)) = Some (max 5000 (min i 86400000))"
    by (simp add: aci_of_def js_parseInt_integer clamp_aci_def ONE_DAY_def del: js_parseInt.simps)
next
  show "aci_of JUndefined = Some 86400000"
    by (simp add: aci_of_def clamp_aci_def ONE_DAY_def)
next
  show "aci_of JNull = None"
    by (simp add: aci_of_def)
next
  show "autocompaction (NeDBStore opts ds)
       = (if truthy (inMemoryOnly opts) then None else aci_of (autoCompactInterval opts))"
    by (simp add: NeDBStore_def Let_def aci_of_def)
qed


theorem autoCompactInterval_normalised_witness:
  "aci_of (JNum (num_of_int 1000)) = Some 5000
   \<and> aci_of (JNum (num_of_int 200000000)) = Some 86400000
   \<and> aci_of (JNum (num_of_int 7000)) = Some 7000
   \<and> (\<exists>a. aci_of (JNum (Fin False 60005 (-1))) = Some a \<and> 5000 \<le> a \<and> a \<le> 86400000)
   \<and> autocompaction (NeDBStore (no_options\<lparr>autoCompactInterval := JNull\<rparr>) empty_datastore) = None
   \<and> autocompaction (NeDBStore no_options empty_datastore) = Some 86400000"
  using autoCompactInterval_normalised[where i = 1000]
    autoCompactInterval_normalised[where i = 200000000]
    autoCompactInterval_normalised[where i = 7000]
    autoCompactInterval_normalised[where v = "JNum (Fin False 60005 (-1))"]
    autoCompactInterval_normalised[where opts = "no_options\<lparr>autoCompactInterval := JNull\<rparr>"
      and ds = empty_datastore]
    autoCompactInterval_normalised[where opts = no_options and ds = empty_datastore]
  by (simp add: no_options_def)

text \<open>
  The claim as stated fails on a number within the range that is not an integer: 6000.5
  does not pass through unchanged, \<^verbatim>\<open>parseInt\<close> cuts it to 6000.
\<close>

theorem autoCompactInterval_fraction_counterexample:
  "number_toString (Fin False 60005 (-1)) = ''6000.5''
   \<and> aci_of (JNum (Fin False 60005 (-1))) = Some 6000
   \<and> number_toString (num_of_int 6000) = ''6000''"
  by (simp add: construction_defs number_defs)

subsection \<open>all and length\<close>

text \<open>
  C4.  When the query itself succeeds, \<^verbatim>\<open>all\<close> hands its callback no error and the
  payloads of exactly those documents that pass the test \<^verbatim>\<open>get\<close> applies (\<open>not_expired\<close>, at
  the time the filter looks at the document), in the order of the collection.  For
  every other document it issues a destroy of that document's id.  A destroy that
  fails shows as an \<^verbatim>\<open>error\<close> event on the adapter, one per failure, and never in the
  callback's arguments.  With unique ids and no failure, the documents left in the
  collection are exactly the ones whose payloads were handed over.
\<close>

theorem all_outcome:
  assumes "reports 0 (datastore this) = None"
  shows "let ds = docs (datastore this);
             kept = map snd (filter (\<lambda>(i, d). not_expired (clock i) d) (enumerate 0 ds));
             stale = map snd (filter (\<lambda>(i, d). \<not> not_expired (clock i) d) (enumerate 0 ds));
             this1 = this\<lparr>datastore := (datastore this)\<lparr>faults := tl (faults (datastore this))\<rparr>\<rparr>
         in fst (all clock this) = (None, Some (map session kept))
          \<and> snd (all clock this) = destroy_stale this1 (map doc_id stale)
          \<and> emitted (snd (all clock this))
              = emitted this @ error_events (take (length stale) (tl (faults (datastore this))))
          \<and> (unique_ids this \<and> faults (datastore this) = [] \<longrightarrow>
               snd (all clock this) = this\<lparr>datastore := (datastore this)\<lparr>docs := kept\<rparr>\<rparr>)"
proof -
  let ?ds = "docs (datastore this)"
  let ?kept = "map snd (filter (\<lambda>(i, d). not_expired (clock i) d) (enumerate 0 ?ds))"
  let ?stale = "map snd (filter (\<lambda>(i, d). \<not> not_expired (clock i) d) (enumerate 0 ?ds))"
  let ?this1 = "this\<lparr>datastore := (datastore this)\<lparr>faults := tl (faults (datastore this))\<rparr>\<rparr>"
  have k: "fst (all_filter clock 0 ?ds) = ?kept" by (rule all_filter_kept)
  have s: "snd (all_filter clock 0 ?ds) = map doc_id ?stale"
    by (simp add: all_filter_stale case_prod_unfold comp_def)
  have a: "all clock this = ((None, Some (map session ?kept)), destroy_stale ?this1 (map doc_id ?stale))"
    using all_eq[OF assms, of clock] k s by simp
  have e: "emitted (snd (all clock this))
             = emitted this @ error_events (take (length ?stale) (tl (faults (datastore this))))"
    using a by (simp add: destroy_stale_emitted)
  have u: "snd (all clock this) = this\<lparr>datastore := (datastore this)\<lparr>docs := ?kept\<rparr>\<rparr>"
    if "unique_ids this" "faults (datastore this) = []"
  proof -
    from that have d: "distinct (map doc_id ?ds)" by (simp add: unique_ids_def)
    from all_filter_partition[OF d, of clock 0] k s
    have "filter (\<lambda>d. doc_id d \<notin> set (map doc_id ?stale)) ?ds = ?kept" by simp
    with destroy_stale_docs[of ?this1 "map doc_id ?stale"] that d a show ?thesis by simp
  qed
  from a e u show ?thesis by (simp add: Let_def)
qed

theorem all_outcome_witness:
  "all (\<lambda>i. 60) sample_store
     = ((None, Some [JObj [(''user'', JStr ''ann'')] None, JObj [(''user'', JStr ''eve'')] None]),
        sample_store\<lparr>datastore := \<lparr>docs = [doc_live, doc_legacy], faults = []\<rparr>\<rparr>)
   \<and> all (\<lambda>i. 60) flaky_store
     = ((None, Some [JObj [(''user'', JStr ''ann'')] None, JObj [(''user'', JStr ''eve'')] None]),
        sample_store\<lparr>emitted := [(''error'', Some (StoreError ''EIO''))]\<rparr>)"
  using all_outcome[of sample_store "\<lambda>i. 60"] all_outcome[of flaky_store "\<lambda>i. 60"]
  by (simp add: sample_store_def doc_live_def doc_stale_def doc_legacy_def flaky_store_def
      collection_defs all_def destroy_def emit_def not_expired_def)

text \<open>
  \<^verbatim>\<open>length\<close> of the revision with expiry reports the length of the list \<^verbatim>\<open>all\<close> produces,
  under the same filter and with the same destroys: when the query succeeds, the number
  of documents that pass the test, which is the number of documents less the stale
  ones; when it fails, the error and 0.
\<close>

theorem length_counts_live:
  "fst (length_op clock this)
     = (fst (fst (all clock this)),
        (case snd (fst (all clock this)) of Some l \<Rightarrow> length l | None \<Rightarrow> 0))
   \<and> snd (length_op clock this) = snd (all clock this)
   \<and> (reports 0 (datastore this) = None \<longrightarrow>
        fst (length_op clock this)
          = (None, length (filter (\<lambda>(i, d). not_expired (clock i) d)
                             (enumerate 0 (docs (datastore this)))))
        \<and> snd (fst (length_op clock this))
            + length (filter (\<lambda>(i, d). \<not> not_expired (clock i) d)
                        (enumerate 0 (docs (datastore this))))
          = length (docs (datastore this)))
   \<and> (\<forall>e. reports 0 (datastore this) = Some e \<longrightarrow> fst (length_op clock this) = (Some e, 0))"
proof (intro conjI impI allI)
  show "fst (length_op clock this)
     = (fst (fst (all clock this)),
        (case snd (fst (all clock this)) of Some l \<Rightarrow> length l | None \<Rightarrow> 0))"
    by (simp add: length_op_def split: prod.splits option.splits)
  show "snd (length_op clock this) = snd (all clock this)"
    by (simp add: length_op_def split: prod.splits)
next
  assume ok: "reports 0 (datastore this) = None"
  let ?en = "enumerate 0 (docs (datastore this))"
  show c: "fst (length_op clock this)
          = (None, length (filter (\<lambda>(i, d). not_expired (clock i) d) ?en))"
    by (simp add: length_op_def all_eq[OF ok] all_filter_kept)
  have "length (filter (\<lambda>(i, d). not_expired (clock i) d) ?en)
        + length (filter (\<lambda>x. \<not> (case x of (i, d) \<Rightarrow> not_expired (clock i) d)) ?en) = length ?en"
    by (rule sum_length_filter_compl)
  then show "snd (fst (length_op clock this))
            + length (filter (\<lambda>(i, d). \<not> not_expired (clock i) d) ?en)
          = length (docs (datastore this))"
    using c by (simp add: case_prod_unfold)
next
  fix e assume "reports 0 (datastore this) = Some e"
  then show "fst (length_op clock this) = (Some e, 0)"
    by (simp add: length_op_def all_failed)
qed

theorem length_counts_live_witness:
  "fst (length_op (\<lambda>i. 60) sample_store) = (None, 2)
   \<and> length (docs (datastore sample_store)) = 3
   \<and> fst (length_op (\<lambda>i. 60)
            (sample_store\<lparr>datastore := \<lparr>docs = [doc_stale], faults = [Some (StoreError ''EIO'')]\<rparr>\<rparr>))
       = (Some (StoreError ''EIO''), 0)"
  using length_counts_live[of "\<lambda>i. 60" sample_store]
    length_counts_live[of "\<lambda>i. 60"
      "sample_store\<lparr>datastore := \<lparr>docs = [doc_stale], faults = [Some (StoreError ''EIO'')]\<rparr>\<rparr>"]
  by (simp add: sample_store_def doc_live_def doc_stale_def doc_legacy_def collection_defs
      length_op_def all_def destroy_def emit_def not_expired_def)

text \<open>\<^verbatim>\<open>length\<close> of \<^verbatim>\<open>index.js\<close> hands over what the collection counts: every document.\<close>

lemma length_count_eq:
  "length_count this =
     ((reports 0 (datastore this),
       (if reports 0 (datastore this) = None then length (docs (datastore this)) else 0)),
      this\<lparr>datastore := (datastore this)\<lparr>faults := tl (faults (datastore this))\<rparr>\<rparr>)"
  by (cases "reports 0 (datastore this)") (simp_all add: length_count_def ds_count_def next_fault_eq)


subsection \<open>Sequences of calls\<close>

text \<open>
  C3 (as amended).  Let \<^verbatim>\<open>set\<close> have written a session whose cookie carries an \<^verbatim>\<open>expires\<close> that
  denotes the time \<open>t\<close>, into a collection with unique ids that serves the calls that
  follow.  Then a \<^verbatim>\<open>get\<close> of the id strictly before \<open>t\<close> returns the stored payload and
  changes nothing; the stored payload is the copy \<^verbatim>\<open>set\<close> made, the session's own
  properties with the cookie replaced by \<^verbatim>\<open>cookie.toJSON()\<close> where the cookie offers that,
  and it equals the session passed to \<^verbatim>\<open>set\<close> when neither the session nor its cookie
  offers \<^verbatim>\<open>toJSON\<close>.  A \<^verbatim>\<open>get\<close> at or after \<open>t\<close> returns \<^verbatim>\<open>(null, null)\<close> and leaves the collection
  without the record, so that a following \<^verbatim>\<open>all\<close> is computed from the other records
  only.
\<close>

theorem set_then_get:
  assumes "set_op h now this sessionId session' = Inr (None, this1)"
    and "has_cookie_expires session'" and "new_Date h (cookie_expires session') = Some t"
    and "unique_ids this" and "faults (datastore this1) = []"
  shows "\<exists>sess. serialize_session h session' = Inr sess
           \<and> (\<forall>ps. session' = JObj ps None
                  \<and> (\<forall>v. (''cookie'', v) \<in> set ps \<longrightarrow> toJSON h v = None) \<longrightarrow> sess = session')
           \<and> (\<forall>now'. now' < t \<longrightarrow> get now' this1 sessionId = ((None, sess), this1))
           \<and> (\<forall>now'. t \<le> now' \<longrightarrow>
                 (\<exists>this2. get now' this1 sessionId = ((None, JNull), this2)
                    \<and> docs (datastore this2)
                        = filter (\<lambda>d. doc_id d \<noteq> sessionId) (docs (datastore this))
                    \<and> (\<forall>clock. fst (all clock this2)
                          = (None, Some (map session (map snd
                               (filter (\<lambda>(i, d). not_expired (clock i) d)
                                  (enumerate 0 (filter (\<lambda>d. doc_id d \<noteq> sessionId)
                                                  (docs (datastore this)))))))))))"
proof -
  from set_op_stores[OF assms(1)] obtain sess d where
    sess: "serialize_session h session' = Inr sess"
    and d: "record_of sessionId this1 = Some d" "session d = sess"
      "expiresAt d = Some (expirationDate h now this session')" by blast
  from d(3) assms(2,3) have ex: "expiresAt d = Some (Some t)"
    by (simp add: expirationDate_def)
  have u1: "unique_ids this1" by (rule set_op_frame(2)[OF assms(1,4)])
  have plain: "sess = session'"
    if "session' = JObj ps None" "\<forall>v. (''cookie'', v) \<in> set ps \<longrightarrow> toJSON h v = None" for ps
  proof -
    from sess that(1) obtain qs where qs: "copy_props h ps = Inr qs" "sess = JObj qs None"
      by (auto simp: serialize_session_def split: sum.splits)
    have "qs = ps" using qs(1) that(2)
    proof (induction ps arbitrary: qs)
      case Nil
      then show ?case by simp
    next
      case (Cons p ps)
      obtain key v where p: "p = (key, v)" by (cases p)
      from Cons.prems(1) p obtain rs where rs: "copy_props h ps = Inr rs"
        by (auto split: if_splits sum.splits)
      from Cons.IH[OF rs] Cons.prems(2) have "rs = ps" by simp
      with Cons.prems p rs show ?case by (auto split: if_splits)
    qed
    with qs(2) that(1) show ?thesis by simp
  qed
  have before: "get now' this1 sessionId = ((None, sess), this1)" if "now' < t" for now'
  proof -
    from that ex have "not_expired now' d" by (simp add: not_expired_def)
    from get_live[OF reports_Nil[OF assms(5)] d(1) this] d(2) assms(5) show ?thesis by simp
  qed
  let ?rest = "filter (\<lambda>d. doc_id d \<noteq> sessionId) (docs (datastore this))"
  let ?this2 = "this1\<lparr>datastore := (datastore this1)\<lparr>docs := ?rest\<rparr>\<rparr>"
  have after: "get now' this1 sessionId = ((None, JNull), ?this2)" if "t \<le> now'" for now'
  proof -
    from that ex have "\<not> not_expired now' d" by (simp add: not_expired_def)
    from get_stale_unique[OF assms(5) u1 d(1) this] set_op_frame(1)[OF assms(1)]
    show ?thesis by simp
  qed
  have following: "fst (all clock ?this2)
      = (None, Some (map session (map snd (filter (\<lambda>(i, d). not_expired (clock i) d)
                                              (enumerate 0 ?rest)))))" for clock
  proof -
    have "reports 0 (datastore ?this2) = None" using assms(5) by (simp add: reports_def)
    from all_eq[OF this, of clock] show ?thesis by (simp add: all_filter_kept)
  qed
  from sess plain before after following show ?thesis by (intro exI[of _ sess]) auto
qed

theorem set_then_get_witness:
  "set_op sample_host 1000 fresh_store ''s1'' sample_session = Inr (None, written_store)
   \<and> get 4999 written_store ''s1'' = ((None, sample_session), written_store)
   \<and> get 5000 written_store ''s1'' = ((None, JNull), fresh_store)
   \<and> fst (all (\<lambda>i. 5001) fresh_store) = (None, Some [])"
proof -
  have a: "set_op sample_host 1000 fresh_store ''s1'' sample_session = Inr (None, written_store)"
    by (simp add: sample_host_def no_options_def empty_datastore_def fresh_store_def sample_session_def
      written_store_def construction_defs collection_defs set_op_def serialize_session_def expirationDate_def has_cookie_expires_def
      cookie_expires_def get_def not_expired_def destroy_def all_def emit_def)
  have b: "has_cookie_expires sample_session"
    and c: "new_Date sample_host (cookie_expires sample_session) = Some 5000"
    and d: "unique_ids fresh_store"
    and e: "faults (datastore written_store) = []"
    by (simp_all add: sample_host_def no_options_def empty_datastore_def fresh_store_def sample_session_def
      written_store_def construction_defs collection_defs set_op_def serialize_session_def expirationDate_def has_cookie_expires_def
      cookie_expires_def get_def not_expired_def destroy_def all_def emit_def)
  from set_then_get[OF a b c d e] show ?thesis
    using a by (simp add: sample_host_def no_options_def empty_datastore_def fresh_store_def sample_session_def
      written_store_def construction_defs collection_defs set_op_def serialize_session_def expirationDate_def has_cookie_expires_def
      cookie_expires_def get_def not_expired_def destroy_def all_def emit_def)
qed

text \<open>
  The claim as stated fails on a session whose cookie offers \<^verbatim>\<open>toJSON\<close>: the payload that
  \<^verbatim>\<open>get\<close> returns before the expiry is the copy with the serialised cookie, not the
  session passed to \<^verbatim>\<open>set\<close>.
\<close>

theorem set_then_get_payload_counterexample:
  "(case set_op sample_host 1000 fresh_store ''s1'' json_cookie_session of
      Inl x \<Rightarrow> False
    | Inr (e, this1) \<Rightarrow>
        e = None
        \<and> fst (get 2000 this1 ''s1'')
            = (None, JObj [(''user'', JStr ''ann''),
                           (''cookie'', JObj [(''expires'', JDate (Some 5000))] None)] None))
   \<and> JObj [(''user'', JStr ''ann''), (''cookie'', JObj [(''expires'', JDate (Some 5000))] None)] None
       \<noteq> json_cookie_session
   \<and> new_Date sample_host (cookie_expires json_cookie_session) = Some 5000"
  by (simp add: sample_host_def no_options_def empty_datastore_def fresh_store_def
      json_cookie_session_def construction_defs collection_defs set_op_def serialize_session_def expirationDate_def has_cookie_expires_def
      cookie_expires_def get_def not_expired_def destroy_def)

text \<open>
  C9.  Whatever \<^verbatim>\<open>set\<close> did for the id, on a collection with unique ids that serves the two
  calls that follow, \<^verbatim>\<open>destroy\<close> hands its callback no error (its only argument: no count
  is passed on), removes the one document with the id and no other, and the \<^verbatim>\<open>get\<close> that
  follows yields \<^verbatim>\<open>(null, null)\<close>.
\<close>

theorem set_destroy_get:
  assumes "set_op h now this sessionId session' = Inr (e, this1)"
    and "unique_ids this" and "faults (datastore this1) = []"
  shows "\<exists>this2. destroy this1 sessionId = (None, this2)
           \<and> docs (datastore this2)
               = remove_first (\<lambda>d. doc_id d = sessionId) (docs (datastore this1))
           \<and> length (docs (datastore this1)) \<le> Suc (length (docs (datastore this2)))
           \<and> docs (datastore this2) = filter (\<lambda>d. doc_id d \<noteq> sessionId) (docs (datastore this))
           \<and> (\<forall>now'. get now' this2 sessionId = ((None, JNull), this2))"
proof -
  let ?rest = "filter (\<lambda>d. doc_id d \<noteq> sessionId) (docs (datastore this1))"
  let ?this2 = "this1\<lparr>datastore := (datastore this1)\<lparr>docs := ?rest\<rparr>\<rparr>"
  have u1: "unique_ids this1" by (rule set_op_frame(2)[OF assms(1,2)])
  have d: "destroy this1 sessionId = (None, ?this2)"
    and r: "remove_first (\<lambda>d. doc_id d = sessionId) (docs (datastore this1)) = ?rest"
    using destroy_unique[OF u1 assms(3)] by simp_all
  have l: "length (docs (datastore this1)) \<le> Suc (length ?rest)"
    using length_remove_first[of "docs (datastore this1)" "\<lambda>d. doc_id d = sessionId"] r by simp
  have f: "?rest = filter (\<lambda>d. doc_id d \<noteq> sessionId) (docs (datastore this))"
    by (rule set_op_frame(1)[OF assms(1)])
  have g: "get now' ?this2 sessionId = ((None, JNull), ?this2)" for now'
    using assms(3) by (intro get_gone[where xs = "docs (datastore this1)"]) simp_all
  from d r l f g show ?thesis by (intro exI[of _ ?this2]) simp
qed

theorem set_destroy_get_witness:
  "set_op sample_host 1000 fresh_store ''s1'' sample_session = Inr (None, written_store)
   \<and> destroy written_store ''s1'' = (None, fresh_store)
   \<and> get 1001 fresh_store ''s1'' = ((None, JNull), fresh_store)"
proof -
  have a: "set_op sample_host 1000 fresh_store ''s1'' sample_session = Inr (None, written_store)"
    by (simp add: sample_host_def no_options_def empty_datastore_def fresh_store_def sample_session_def
      written_store_def construction_defs collection_defs set_op_def serialize_session_def expirationDate_def has_cookie_expires_def
      cookie_expires_def get_def not_expired_def destroy_def)
  have d: "unique_ids fresh_store" and e: "faults (datastore written_store) = []"
    by (simp_all add: sample_host_def no_options_def empty_datastore_def fresh_store_def sample_session_def
      written_store_def construction_defs collection_defs)
  from set_destroy_get[OF a d e] show ?thesis
    using a by (simp add: sample_host_def no_options_def empty_datastore_def fresh_store_def sample_session_def
      written_store_def construction_defs collection_defs set_op_def serialize_session_def expirationDate_def has_cookie_expires_def
      cookie_expires_def get_def not_expired_def destroy_def)
qed

text \<open>
  C10.  \<^verbatim>\<open>set\<close> does not look at the expiry it computes.  For a session it can copy (it
  throws only on a session, or a cookie property, that is \<^verbatim>\<open>undefined\<close> or \<^verbatim>\<open>null\<close>), on a
  collection with unique ids that reports no failure: when the expiry computed is at or
  before the current time, \<^verbatim>\<open>set\<close> still reports no error and the record is in the
  collection, with that expiry; the first \<^verbatim>\<open>get\<close> of the id from then on yields a \<^verbatim>\<open>null\<close>
  payload and removes the record, every later one finds none and yields \<^verbatim>\<open>null\<close> again;
  and no \<^verbatim>\<open>all\<close> from then on hands over the record's payload.
\<close>

theorem set_expired_session:
  assumes "serialize_session h session' = Inr sess"
    and "expirationDate h now this session' = Some t" and "t \<le> now"
    and "unique_ids this" and "faults (datastore this) = []"
  shows "\<exists>this1 d. set_op h now this sessionId session' = Inr (None, this1)
           \<and> record_of sessionId this1 = Some d \<and> session d = sess \<and> expiresAt d = Some (Some t)
           \<and> (\<forall>now'. now \<le> now' \<longrightarrow>
                 (\<exists>this2. get now' this1 sessionId = ((None, JNull), this2)
                    \<and> record_of sessionId this2 = None
                    \<and> (\<forall>now''. get now'' this2 sessionId = ((None, JNull), this2))))
           \<and> (\<forall>clock. (\<forall>i. now \<le> clock i) \<longrightarrow>
                 (\<exists>kept. fst (all clock this1) = (None, Some (map session kept))
                    \<and> set kept \<subseteq> set (docs (datastore this1))
                    \<and> (\<forall>k \<in> set kept. doc_id k \<noteq> sessionId)))"
proof -
  from set_op_succeeds[OF assms(1) reports_Nil[OF assms(5)]]
  obtain this1 where s: "set_op h now this sessionId session' = Inr (None, this1)" by blast
  from set_op_stores[OF s] assms(1,2) obtain d where
    d: "record_of sessionId this1 = Some d" "session d = sess" "expiresAt d = Some (Some t)"
    by auto
  have u1: "unique_ids this1" by (rule set_op_frame(2)[OF s assms(4)])
  have f1: "faults (datastore this1) = []" using set_op_frame(3)[OF s] assms(5) by simp
  let ?rest = "filter (\<lambda>d. doc_id d \<noteq> sessionId) (docs (datastore this1))"
  let ?this2 = "this1\<lparr>datastore := (datastore this1)\<lparr>docs := ?rest\<rparr>\<rparr>"
  have gets: "get now' this1 sessionId = ((None, JNull), ?this2)
      \<and> record_of sessionId ?this2 = None
      \<and> (\<forall>now''. get now'' ?this2 sessionId = ((None, JNull), ?this2))" if "now \<le> now'" for now'
  proof -
    from that assms(3) d(3) have "\<not> not_expired now' d" by (simp add: not_expired_def)
    from get_stale_unique[OF f1 u1 d(1) this]
    have "get now' this1 sessionId = ((None, JNull), ?this2)" .
    moreover have "record_of sessionId ?this2 = None"
      using find_filter_absent[of "\<lambda>d. doc_id d = sessionId" "docs (datastore this1)"]
      by (simp add: record_of_def)
    moreover have "get now'' ?this2 sessionId = ((None, JNull), ?this2)" for now''
      using f1 by (intro get_gone[where xs = "docs (datastore this1)"]) simp_all
    ultimately show ?thesis by blast
  qed
  have alls: "\<exists>kept. fst (all clock this1) = (None, Some (map session kept))
                    \<and> set kept \<subseteq> set (docs (datastore this1))
                    \<and> (\<forall>k \<in> set kept. doc_id k \<noteq> sessionId)" if late: "\<forall>i. now \<le> clock i" for clock
  proof -
    let ?kept = "fst (all_filter clock 0 (docs (datastore this1)))"
    have a: "fst (all clock this1) = (None, Some (map session ?kept))"
      using all_eq[OF reports_Nil[OF f1], of clock] by simp
    have "doc_id k \<noteq> sessionId \<and> k \<in> set (docs (datastore this1))" if k: "k \<in> set ?kept" for k
    proof -
      from all_filter_kept_subset[OF k] obtain j where
        kin: "k \<in> set (docs (datastore this1))" and live: "not_expired (clock j) k" by blast
      have "doc_id k \<noteq> sessionId"
      proof
        assume "doc_id k = sessionId"
        with find_unique[of doc_id "docs (datastore this1)" sessionId d k] u1 d(1) kin
        have "k = d" by (simp add: unique_ids_def record_of_def)
        with live d(3) assms(3) late show False
          by (simp add: not_expired_def) (metis not_less order_trans)
      qed
      with kin show ?thesis by simp
    qed
    with a show ?thesis by (intro exI[of _ ?kept]) auto
  qed
  from s d gets alls show ?thesis by (intro exI[of _ this1] exI[of _ d]) blast
qed

theorem set_expired_session_witness:
  "set_op sample_host 1000 fresh_store ''s1'' past_session = Inr (None, past_written_store)
   \<and> expirationDate sample_host 1000 fresh_store past_session = Some 500
   \<and> record_of ''s1'' past_written_store \<noteq> None
   \<and> get 1000 past_written_store ''s1'' = ((None, JNull), fresh_store)
   \<and> get 1001 fresh_store ''s1'' = ((None, JNull), fresh_store)
   \<and> fst (all (\<lambda>i. 1000) past_written_store) = (None, Some [])"
proof -
  have a: "serialize_session sample_host past_session = Inr past_session"
    and b: "expirationDate sample_host 1000 fresh_store past_session = Some 500"
    and c: "(500::int) \<le> 1000"
    and d: "unique_ids fresh_store" and e: "faults (datastore fresh_store) = []"
    by (simp_all add: sample_host_def no_options_def empty_datastore_def fresh_store_def past_session_def
      past_written_store_def construction_defs collection_defs set_op_def serialize_session_def expirationDate_def has_cookie_expires_def
      cookie_expires_def get_def not_expired_def destroy_def all_def emit_def)
  from set_expired_session[OF a b c d e, of "''s1''"] show ?thesis
    using b by (simp add: sample_host_def no_options_def empty_datastore_def fresh_store_def past_session_def
      past_written_store_def construction_defs collection_defs set_op_def serialize_session_def expirationDate_def has_cookie_expires_def
      cookie_expires_def get_def not_expired_def destroy_def all_def emit_def)
qed

end
